theory Spec2Isabelle
  imports Complex_Main
begin

section \<open>Modelling conventions\<close>

text \<open>
  The development embeds the geometry pipeline of \<^verbatim>\<open>foilgen.py\<close>: \<^verbatim>\<open>parse_naca\<close>,
  \<^verbatim>\<open>cosine_spacing\<close>, \<^verbatim>\<open>thickness_distribution\<close>, \<^verbatim>\<open>camber_line\<close>, \<^verbatim>\<open>generate_naca4\<close>,
  \<^verbatim>\<open>map_to_3d\<close>, \<^verbatim>\<open>validate_geometry\<close>, \<^verbatim>\<open>compute_n_per_surface_from_total\<close> and the
  part of \<^verbatim>\<open>main\<close> that chains them.

  \<^item> A one-dimensional float array is a \<open>real list\<close>; elementwise numpy operations are
    \<open>map\<close>. In the pipeline, arithmetic on array elements is exact real arithmetic:
    binary64 rounding of \<open>+\<close>, \<open>*\<close>, \<open>/\<close>, \<open>sqrt\<close>, \<open>cos\<close>, \<open>sin\<close> and \<open>arctan\<close> is not
    modelled there.
  \<^item> Where rounding decides, it is written out: the true division
    \<^verbatim>\<open>(int(total_points) + 1) / 2\<close> rounds to nearest-even on 53 significant bits, and
    \<open>cosine_spacing_f64\<close> is \<^verbatim>\<open>cosine_spacing\<close> with every binary64 operation rounded.
  \<^item> A coordinate handed to the validator is an \<open>fval\<close>: a finite real or \<open>NonFin\<close>, which
    stands for NaN, \<open>+inf\<close> and \<open>-inf\<close> together. In the model non-finite values enter only
    through a non-finite chord length; overflow of a product is not modelled.
  \<^item> The pipeline runs on codes written as \<open>string\<close> literals, with characters the code
    points \<open>0..255\<close>. The parser itself is also given over strings of any code points,
    \<open>parse_naca_on\<close>, with the character tables of the interpreter as parameters.
  \<^item> Every \<^verbatim>\<open>raise\<close> is a value \<open>Inl e\<close> of the result type \<open>error + 'a\<close>.
\<close>

datatype error =
    InvalidCodeFormat    \<comment> \<open>\<^verbatim>\<open>ValueError("Input must be 4 digits!")\<close>\<close>
  | InvalidIntLiteral    \<comment> \<open>\<^verbatim>\<open>ValueError\<close> raised by \<^verbatim>\<open>int()\<close> on a non-decimal digit\<close>
  | ZeroDivisionError    \<comment> \<open>Python float division by zero\<close>
  | OverflowError        \<comment> \<open>\<^verbatim>\<open>int / int\<close> too large for a float\<close>
  | InvalidAxis          \<comment> \<open>\<^verbatim>\<open>ValueError("normal_axis must be X, Y, or Z")\<close>\<close>
  | ShapeMismatch        \<comment> \<open>\<^verbatim>\<open>np.vstack\<close> on rows of different lengths\<close>
  | NonFiniteGeometry    \<comment> \<open>\<^verbatim>\<open>ValueError("Generated coordinates contain NaN or infinite values!")\<close>\<close>
  | EmptyReduction       \<comment> \<open>\<^verbatim>\<open>min\<close> of a zero-size array\<close>
  | DegenerateGeometry   \<comment> \<open>\<^verbatim>\<open>ValueError("Degenerate geometry: all output points identical!")\<close>\<close>

datatype fval = Fin real | NonFin

section \<open>Strings\<close>

text \<open>\<^verbatim>\<open>str.isspace\<close> on the code points below 256: TAB, LF, VT, FF, CR, FS, GS, RS, US,
  SPACE, NEL and NO-BREAK SPACE.\<close>

definition isspace :: "char \<Rightarrow> bool" where
  "isspace c = ((of_char c :: nat) \<in> {9, 10, 11, 12, 13, 28, 29, 30, 31, 32, 133, 160})"

text \<open>\<^verbatim>\<open>str.strip()\<close> without argument: leading and trailing whitespace removed.\<close>

definition strip :: "string \<Rightarrow> string" where
  "strip s = rev (dropWhile isspace (rev (dropWhile isspace s)))"

definition ascii_digit :: "char \<Rightarrow> bool" where
  "ascii_digit c = (48 \<le> (of_char c :: nat) \<and> (of_char c :: nat) \<le> 57)"

text \<open>\<^verbatim>\<open>str.isdigit\<close> holds of the ASCII digits and, below 256, of the superscript digits
  U+00B2, U+00B3 and U+00B9; it is false of the empty string.\<close>

definition isdigit_char :: "char \<Rightarrow> bool" where
  "isdigit_char c = (ascii_digit c \<or> (of_char c :: nat) \<in> {178, 179, 185})"

definition isdigit :: "string \<Rightarrow> bool" where
  "isdigit s = (s \<noteq> [] \<and> list_all isdigit_char s)"

definition digit_val :: "char \<Rightarrow> int" where
  "digit_val c = int (of_char c) - 48"

text \<open>\<^verbatim>\<open>int(s)\<close> for the arguments \<^verbatim>\<open>parse_naca\<close> passes, non-empty strings of \<^verbatim>\<open>isdigit\<close>
  characters: the decimal value when every character is an ASCII digit, \<^verbatim>\<open>ValueError\<close>
  on a superscript digit.\<close>

definition py_int :: "string \<Rightarrow> error + int" where
  "py_int s = (if s \<noteq> [] \<and> list_all ascii_digit s
               then Inr (foldl (\<lambda>a c. 10 * a + digit_val c) 0 s)
               else Inl InvalidIntLiteral)"

section \<open>parse_naca\<close>

definition parse_naca :: "string \<Rightarrow> error + (real \<times> real \<times> real)" where
  "parse_naca code0 =
     (let code = strip code0 in
      if length code \<noteq> 4 \<or> \<not> isdigit code then Inl InvalidCodeFormat
      else case py_int [code ! 0] of Inl e \<Rightarrow> Inl e | Inr d1 \<Rightarrow>
           (case py_int [code ! 1] of Inl e \<Rightarrow> Inl e | Inr d2 \<Rightarrow>
           (case py_int (drop 2 code) of Inl e \<Rightarrow> Inl e | Inr d34 \<Rightarrow>
              Inr (real_of_int d1 / 100, real_of_int d2 / 10, real_of_int d34 / 100))))"

section \<open>compute_n_per_surface_from_total\<close>

text \<open>Number of low bits a non-negative integer has in excess of 53 significant bits.\<close>

function excess_bits :: "int \<Rightarrow> nat" where
  "excess_bits a = (if a < 2 ^ 53 then 0 else Suc (excess_bits (a div 2)))"
  by pat_completeness auto
termination
  by (relation "measure nat") auto

text \<open>Round a non-negative integer to the nearest integer with at most 53 significant
  bits, ties to the even significand (the binary64 rounding of an integer).\<close>

definition round53 :: "int \<Rightarrow> int" where
  "round53 a =
     (let d = excess_bits a; q = a div 2 ^ d; r = a mod 2 ^ d in
      if d = 0 then a
      else if 2 * r > 2 ^ d \<or> (2 * r = 2 ^ d \<and> odd q) then (q + 1) * 2 ^ d
      else q * 2 ^ d)"

text \<open>Python's \<^verbatim>\<open>a / 2\<close> for an \<^verbatim>\<open>int\<close> \<open>a\<close>: the correctly rounded binary64 quotient, or
  \<^verbatim>\<open>OverflowError\<close> when it does not fit. Dividing by two only changes the exponent, so
  the quotient is the rounded numerator halved.\<close>

definition truediv2 :: "int \<Rightarrow> error + real" where
  "truediv2 a =
     (let r = round53 \<bar>a\<bar> in
      if r \<ge> 2 ^ 1025 then Inl OverflowError
      else Inr (real_of_int (sgn a * r) / 2))"

definition compute_n_per_surface_from_total :: "int \<Rightarrow> error + int" where
  "compute_n_per_surface_from_total total_points =
     (case truediv2 (total_points + 1) of
        Inl e \<Rightarrow> Inl e
      | Inr v \<Rightarrow> (let n_est = \<lceil>v\<rceil> in Inr (max 3 n_est)))"

section \<open>cosine_spacing and thickness_distribution\<close>

text \<open>\<^verbatim>\<open>np.linspace(start, stop, num)\<close> with the endpoint included: \<open>num\<close> samples
  \<open>start + i * step\<close> with \<open>step = (stop - start) / (num - 1)\<close>, the last one set to
  \<open>stop\<close> itself.\<close>

definition linspace :: "real \<Rightarrow> real \<Rightarrow> nat \<Rightarrow> real list" where
  "linspace start stop num =
     (if num = 0 then []
      else if num = 1 then [start]
      else map (\<lambda>i. start + real i * ((stop - start) / real (num - 1))) [0..<num - 1] @ [stop])"

definition cosine_spacing :: "nat \<Rightarrow> real list" where
  "cosine_spacing n = (let beta = linspace 0 pi n in map (\<lambda>b. 0.5 * (1 - cos b)) beta)"

definition thickness_distribution :: "real list \<Rightarrow> real \<Rightarrow> real list" where
  "thickness_distribution x t =
     map (\<lambda>v. let sqrtx = sqrt (max v 0) in
               5.0 * t * (0.2969 * sqrtx - 0.1260 * v - 0.3516 * v ^ 2 + 0.2843 * v ^ 3 - 0.1015 * v ^ 4)) x"

section \<open>camber_line\<close>

text \<open>The closed forms of the forward segment (\<^verbatim>\<open>idx1\<close>) and of the aft segment (\<^verbatim>\<open>idx2\<close>).\<close>

definition yc_fwd :: "real \<Rightarrow> real \<Rightarrow> real \<Rightarrow> real" where
  "yc_fwd m p v = (m / p ^ 2) * (2 * p * v - v ^ 2)"

definition dyc_fwd :: "real \<Rightarrow> real \<Rightarrow> real \<Rightarrow> real" where
  "dyc_fwd m p v = (2 * m / p ^ 2) * (p - v)"

definition yc_aft :: "real \<Rightarrow> real \<Rightarrow> real \<Rightarrow> real" where
  "yc_aft m p v = (m / (1 - p) ^ 2) * ((1 - 2 * p) + 2 * p * v - v ^ 2)"

definition dyc_aft :: "real \<Rightarrow> real \<Rightarrow> real \<Rightarrow> real" where
  "dyc_aft m p v = (2 * m / (1 - p) ^ 2) * (p - v)"

text \<open>The mask \<^verbatim>\<open>idx1 = x < p + 1e-12\<close>, elementwise.\<close>

definition idx1 :: "real \<Rightarrow> real \<Rightarrow> bool" where
  "idx1 p v = (v < p + 1 / 10 ^ 12)"

text \<open>\<open>m\<close> and \<open>p\<close> are Python floats, so a zero denominator raises. Each denominator is
  evaluated only when its mask selects some element.\<close>

definition camber_line :: "real list \<Rightarrow> real \<Rightarrow> real \<Rightarrow> error + (real list \<times> real list)" where
  "camber_line x m p =
     (if m = 0 \<or> p = 0 then Inr (map (\<lambda>_. 0) x, map (\<lambda>_. 0) x)
      else if list_ex (idx1 p) x \<and> p ^ 2 = 0 then Inl ZeroDivisionError
      else if list_ex (\<lambda>v. \<not> idx1 p v) x \<and> (1 - p) ^ 2 = 0 then Inl ZeroDivisionError
      else Inr (map (\<lambda>v. if idx1 p v then yc_fwd m p v else yc_aft m p v) x,
                map (\<lambda>v. if idx1 p v then dyc_fwd m p v else dyc_aft m p v) x))"

section \<open>generate_naca4\<close>

text \<open>The four surface arrays \<open>(xu, yu, xl, yl)\<close> of \<^verbatim>\<open>generate_naca4\<close>, from the parameter
  values, the camber line, its slope and the thickness.\<close>

definition surfaces ::
  "real list \<Rightarrow> real list \<Rightarrow> real list \<Rightarrow> real list
     \<Rightarrow> real list \<times> real list \<times> real list \<times> real list" where
  "surfaces x yc dyc yt =
     (let theta = map arctan dyc;
          xu = map2 (\<lambda>v (h, th). v - h * sin th) x (zip yt theta);
          yu = map2 (\<lambda>c (h, th). c + h * cos th) yc (zip yt theta);
          xl = map2 (\<lambda>v (h, th). v + h * sin th) x (zip yt theta);
          yl = map2 (\<lambda>c (h, th). c - h * cos th) yc (zip yt theta)
      in (xu, yu, xl, yl))"

text \<open>The loop runs from the trailing edge over the upper surface to the leading edge
  and back over the lower surface: the upper surface reversed, then the lower surface
  without its first point (the test \<^verbatim>\<open>len(xl) > 1\<close> decides for both coordinates).\<close>

definition generate_naca4 ::
  "string \<Rightarrow> int \<Rightarrow> error + (real list \<times> real list \<times> (real \<times> real \<times> real))" where
  "generate_naca4 code n_points_per_surface =
     (case parse_naca code of
        Inl e \<Rightarrow> Inl e
      | Inr (m, p, t) \<Rightarrow>
          (let n = max 3 n_points_per_surface;
               x = cosine_spacing (nat n)
           in case camber_line x m p of
                Inl e \<Rightarrow> Inl e
              | Inr (yc, dyc) \<Rightarrow>
                  (let yt = thickness_distribution x t;
                       (xu, yu, xl, yl) = surfaces x yc dyc yt;
                       xu_rev = rev xu;
                       yu_rev = rev yu;
                       (xl_tail, yl_tail) =
                         (if length xl > 1 then (tl xl, tl yl) else (xl, yl));
                       x_combined = xu_rev @ xl_tail;
                       y_combined = yu_rev @ yl_tail
                   in Inr (x_combined, y_combined, (m, p, t)))))"

section \<open>map_to_3d\<close>

text \<open>\<^verbatim>\<open>str.upper\<close> on the ASCII letters. The other characters below 256 either stay or
  map to characters other than X, Y and Z, which the axis test does not tell apart.\<close>

definition upper_char :: "char \<Rightarrow> char" where
  "upper_char c =
     (if 97 \<le> (of_char c :: nat) \<and> (of_char c :: nat) \<le> 122
      then char_of ((of_char c :: nat) - 32) else c)"

definition upper :: "string \<Rightarrow> string" where
  "upper s = map upper_char s"

text \<open>\<^verbatim>\<open>scale * v\<close> for a finite array element \<open>v\<close>: a non-finite scale gives a
  non-finite product (an infinity or NaN). Overflow of a finite product, which needs a
  chord beyond \<open>1e307\<close>, is not modelled.\<close>

definition scale_by :: "fval \<Rightarrow> real \<Rightarrow> fval" where
  "scale_by scale v = (case scale of Fin c \<Rightarrow> Fin (c * v) | NonFin \<Rightarrow> NonFin)"

definition map_to_3d ::
  "real list \<Rightarrow> real list \<Rightarrow> string \<Rightarrow> fval \<Rightarrow> error + (fval \<times> fval \<times> fval) list" where
  "map_to_3d x2d y2d normal_axis chord_length =
     (let norm = upper normal_axis in
      if norm \<notin> {''X'', ''Y'', ''Z''} then Inl InvalidAxis
      else
        (let scale = chord_length;
             zeros = map (\<lambda>_. Fin 0) x2d;
             (X, Y, Z) =
               (if norm = ''X'' then (zeros, map (scale_by scale) x2d, map (scale_by scale) y2d)
                else if norm = ''Y'' then (map (scale_by scale) x2d, zeros, map (scale_by scale) y2d)
                else (map (scale_by scale) x2d, map (scale_by scale) y2d, zeros))
         in if length X = length Y \<and> length Y = length Z
            then Inr (zip X (zip Y Z)) else Inl ShapeMismatch))"

section \<open>validate_geometry\<close>

fun finite_row :: "fval \<times> fval \<times> fval \<Rightarrow> (real \<times> real \<times> real) option" where
  "finite_row (Fin a, Fin b, Fin c) = Some (a, b, c)"
| "finite_row _ = None"

text \<open>\<^verbatim>\<open>np.isfinite(coords).all()\<close>: the rows as reals when every entry is finite.\<close>

fun finite_rows :: "(fval \<times> fval \<times> fval) list \<Rightarrow> (real \<times> real \<times> real) list option" where
  "finite_rows [] = Some []"
| "finite_rows (r # rs) =
     (case finite_row r of
        None \<Rightarrow> None
      | Some v \<Rightarrow> (case finite_rows rs of None \<Rightarrow> None | Some vs \<Rightarrow> Some (v # vs)))"

text \<open>\<^verbatim>\<open>maxs - mins\<close> along one column.\<close>

definition axis_span :: "real list \<Rightarrow> real" where
  "axis_span vs = Max (set vs) - Min (set vs)"

definition validate_geometry :: "(fval \<times> fval \<times> fval) list \<Rightarrow> error + bool" where
  "validate_geometry coords =
     (case finite_rows coords of
        None \<Rightarrow> Inl NonFiniteGeometry
      | Some rows \<Rightarrow>
          if rows = [] then Inl EmptyReduction
          else
            (let spans = [axis_span (map fst rows), axis_span (map (fst \<circ> snd) rows),
                          axis_span (map (snd \<circ> snd) rows)]
             in if list_all (\<lambda>s. s = 0) spans then Inl DegenerateGeometry else Inr True))"

section \<open>The pipeline of main\<close>

text \<open>From the parsed arguments to the validated point array: the requested total is
  clamped to at least 3, turned into a per-surface count, and the loop is generated,
  embedded and validated. The result carries the 3D points, the 2D loop, the airfoil
  parameters and the per-surface count.\<close>

definition run ::
  "string \<Rightarrow> string \<Rightarrow> fval \<Rightarrow> int
     \<Rightarrow> error + ((fval \<times> fval \<times> fval) list \<times> (real list \<times> real list) \<times> (real \<times> real \<times> real) \<times> int)" where
  "run naca_code normal chord points =
     (let total_points_requested = max 3 points in
      case compute_n_per_surface_from_total total_points_requested of
        Inl e \<Rightarrow> Inl e
      | Inr n_per_surface \<Rightarrow>
          (case generate_naca4 naca_code n_per_surface of
             Inl e \<Rightarrow> Inl e
           | Inr (x2d, y2d, params) \<Rightarrow>
               (case map_to_3d x2d y2d normal chord of
                  Inl e \<Rightarrow> Inl e
                | Inr coords3d \<Rightarrow>
                    (case validate_geometry coords3d of
                       Inl e \<Rightarrow> Inl e
                     | Inr _ \<Rightarrow> Inr (coords3d, (x2d, y2d), params, n_per_surface)))))"

section \<open>Elementwise view\<close>

text \<open>The array expressions of \<^verbatim>\<open>thickness_distribution\<close>, \<^verbatim>\<open>camber_line\<close> and
  \<^verbatim>\<open>generate_naca4\<close> at one parameter value \<open>v\<close>; the lemmas \<open>thickness_distribution_map\<close>,
  \<open>camber_line_map\<close>, \<open>surfaces_map\<close> and \<open>generate_naca4_map\<close> relate them to the arrays.\<close>

definition yt_at :: "real \<Rightarrow> real \<Rightarrow> real" where
  "yt_at t v =
     5.0 * t * (0.2969 * sqrt (max v 0) - 0.1260 * v - 0.3516 * v ^ 2 + 0.2843 * v ^ 3 - 0.1015 * v ^ 4)"

definition yc_at :: "real \<Rightarrow> real \<Rightarrow> real \<Rightarrow> real" where
  "yc_at m p v = (if m = 0 \<or> p = 0 then 0 else if idx1 p v then yc_fwd m p v else yc_aft m p v)"

definition dyc_at :: "real \<Rightarrow> real \<Rightarrow> real \<Rightarrow> real" where
  "dyc_at m p v = (if m = 0 \<or> p = 0 then 0 else if idx1 p v then dyc_fwd m p v else dyc_aft m p v)"

definition xu_at :: "real \<Rightarrow> real \<Rightarrow> real \<Rightarrow> real \<Rightarrow> real" where
  "xu_at m p t v = v - yt_at t v * sin (arctan (dyc_at m p v))"

definition yu_at :: "real \<Rightarrow> real \<Rightarrow> real \<Rightarrow> real \<Rightarrow> real" where
  "yu_at m p t v = yc_at m p v + yt_at t v * cos (arctan (dyc_at m p v))"

definition xl_at :: "real \<Rightarrow> real \<Rightarrow> real \<Rightarrow> real \<Rightarrow> real" where
  "xl_at m p t v = v + yt_at t v * sin (arctan (dyc_at m p v))"

definition yl_at :: "real \<Rightarrow> real \<Rightarrow> real \<Rightarrow> real \<Rightarrow> real" where
  "yl_at m p t v = yc_at m p v - yt_at t v * cos (arctan (dyc_at m p v))"

text \<open>\<^verbatim>\<open>max(X) - min(X)\<close> over the rows of a finite, non-empty point array.\<close>

definition x_extent :: "(fval \<times> fval \<times> fval) list \<Rightarrow> real option" where
  "x_extent coords =
     (case finite_rows coords of
        None \<Rightarrow> None
      | Some rows \<Rightarrow> if rows = [] then None else Some (axis_span (map fst rows)))"

section \<open>The parser over Unicode strings\<close>

text \<open>A Python string is a sequence of Unicode code points. What \<^verbatim>\<open>parse_naca\<close> asks of a
  character is answered by the character database of the interpreter, which is not part
  of the repository; its three tables are parameters: \<open>is_space\<close> is \<^verbatim>\<open>str.isspace\<close> of
  one character (the characters \<^verbatim>\<open>str.strip()\<close> removes), \<open>is_digit\<close> is \<^verbatim>\<open>str.isdigit\<close> of
  one character, and \<open>decimal\<close> gives the digit value of a decimal digit of any script,
  which is what \<^verbatim>\<open>int()\<close> reads, and \<open>None\<close> for every other character.\<close>

record 'c char_db =
  is_space :: "'c \<Rightarrow> bool"
  is_digit :: "'c \<Rightarrow> bool"
  decimal :: "'c \<Rightarrow> nat option"

definition strip_on :: "'c char_db \<Rightarrow> 'c list \<Rightarrow> 'c list" where
  "strip_on db s = rev (dropWhile (is_space db) (rev (dropWhile (is_space db) s)))"

definition isdigit_on :: "'c char_db \<Rightarrow> 'c list \<Rightarrow> bool" where
  "isdigit_on db s = (s \<noteq> [] \<and> list_all (is_digit db) s)"

text \<open>\<^verbatim>\<open>int(s)\<close> for a non-empty string of \<^verbatim>\<open>isdigit\<close> characters, where no sign, blank or
  underscore occurs: the base-10 value when every character is a decimal digit,
  \<^verbatim>\<open>ValueError\<close> otherwise.\<close>

fun decimal_value :: "'c char_db \<Rightarrow> int \<Rightarrow> 'c list \<Rightarrow> int option" where
  "decimal_value db acc [] = Some acc"
| "decimal_value db acc (c # cs) =
     (case decimal db c of
        None \<Rightarrow> None
      | Some d \<Rightarrow> decimal_value db (10 * acc + int d) cs)"

definition py_int_on :: "'c char_db \<Rightarrow> 'c list \<Rightarrow> error + int" where
  "py_int_on db s =
     (if s = [] then Inl InvalidIntLiteral
      else case decimal_value db 0 s of None \<Rightarrow> Inl InvalidIntLiteral | Some v \<Rightarrow> Inr v)"

definition parse_naca_on :: "'c char_db \<Rightarrow> 'c list \<Rightarrow> error + (real \<times> real \<times> real)" where
  "parse_naca_on db code0 =
     (let code = strip_on db code0 in
      if length code \<noteq> 4 \<or> \<not> isdigit_on db code then Inl InvalidCodeFormat
      else case py_int_on db [code ! 0] of Inl e \<Rightarrow> Inl e | Inr d1 \<Rightarrow>
           (case py_int_on db [code ! 1] of Inl e \<Rightarrow> Inl e | Inr d2 \<Rightarrow>
           (case py_int_on db (drop 2 code) of Inl e \<Rightarrow> Inl e | Inr d34 \<Rightarrow>
              Inr (real_of_int d1 / 100, real_of_int d2 / 10, real_of_int d34 / 100))))"

text \<open>The tables of the code points below 256; \<open>parse_naca\<close> is \<open>parse_naca_on latin1\<close>
  (lemma \<open>parse_naca_latin1\<close>).\<close>

definition latin1 :: "char char_db" where
  "latin1 = \<lparr>is_space = isspace, is_digit = isdigit_char,
             decimal = (\<lambda>c. if ascii_digit c then Some (nat (digit_val c)) else None)\<rparr>"

text \<open>An excerpt of the tables over code points as numbers: the blanks below 256, the
  ASCII digits, the superscript digits (digits without a decimal value) and the fullwidth
  digits U+FF10 to U+FF19.\<close>

definition digits_excerpt :: "nat char_db" where
  "digits_excerpt =
     \<lparr>is_space = (\<lambda>n. n \<in> {9, 10, 11, 12, 13, 28, 29, 30, 31, 32, 133, 160}),
      is_digit = (\<lambda>n. (48 \<le> n \<and> n \<le> 57) \<or> n \<in> {178, 179, 185} \<or> (65296 \<le> n \<and> n \<le> 65305)),
      decimal = (\<lambda>n. if 48 \<le> n \<and> n \<le> 57 then Some (n - 48)
                     else if 65296 \<le> n \<and> n \<le> 65305 then Some (n - 65296) else None)\<rparr>"

section \<open>cosine_spacing in binary64\<close>

text \<open>Round to the nearest integer, ties to the even one.\<close>

definition rne :: "real \<Rightarrow> int" where
  "rne y =
     (let f = \<lfloor>y\<rfloor>; r = y - of_int f in
      if r < 1 / 2 then f else if r > 1 / 2 then f + 1 else if even f then f else f + 1)"

text \<open>The binary64 value of a real: round to nearest, ties to even, on 53 significant bits.
  The exponent range is not bounded; the values rounded below lie between \<open>1e-9\<close> and 4.\<close>

definition fl :: "real \<Rightarrow> real" where
  "fl x =
     (if x = 0 then 0
      else let e = \<lfloor>log 2 \<bar>x\<bar>\<rfloor>; u = 2 powr (of_int e - 52) in u * of_int (rne (x / u)))"




section \<open>Basic facts\<close>

lemma length4E: "length xs = 4 \<Longrightarrow> \<exists>a b c d. xs = [a, b, c, d]"
  by (auto simp: length_Suc_conv numeral_eq_Suc)

lemma ascii_digit_isdigit: "ascii_digit c \<Longrightarrow> isdigit_char c"
  by (simp add: isdigit_char_def)

lemma digit_val_range: "ascii_digit c \<Longrightarrow> 0 \<le> digit_val c \<and> digit_val c \<le> 9"
  by (auto simp: ascii_digit_def digit_val_def)

lemma parse_naca_2412: "parse_naca ''2412'' = Inr (2 / 100, 4 / 10, 12 / 100)"
  by (simp add: parse_naca_def strip_def isspace_def isdigit_def isdigit_char_def
      ascii_digit_def py_int_def digit_val_def)

lemma parse_naca_InrD:
  assumes "parse_naca s = Inr (m, p, t)"
  shows "\<exists>d1 d2 d34 :: int.
           0 \<le> d1 \<and> d1 \<le> 9 \<and> 0 \<le> d2 \<and> d2 \<le> 9 \<and> 0 \<le> d34 \<and> d34 \<le> 99 \<and>
           m = real_of_int d1 / 100 \<and> p = real_of_int d2 / 10 \<and> t = real_of_int d34 / 100"
proof -
  from assms have len: "length (strip s) = 4"
    by (auto simp: parse_naca_def Let_def split: if_splits)
  then obtain a b c d where code: "strip s = [a, b, c, d]"
    using length4E by blast
  from assms have dig: "ascii_digit a" "ascii_digit b" "ascii_digit c" "ascii_digit d"
    and m: "m = real_of_int (digit_val a) / 100"
    and p: "p = real_of_int (digit_val b) / 10"
    and t: "t = real_of_int (10 * digit_val c + digit_val d) / 100"
    by (auto simp: parse_naca_def Let_def code py_int_def split: if_splits)
  from dig digit_val_range
  have "0 \<le> digit_val a \<and> digit_val a \<le> 9 \<and> 0 \<le> digit_val b \<and> digit_val b \<le> 9
        \<and> 0 \<le> 10 * digit_val c + digit_val d \<and> 10 * digit_val c + digit_val d \<le> 99"
    by (smt (verit))
  with m p t show ?thesis by blast
qed

lemma parse_naca_p_ne_1: "parse_naca s = Inr (m, p, t) \<Longrightarrow> p \<noteq> 1"
  by (drule parse_naca_InrD) auto

lemma excess_bits_small: "a < 2 ^ 53 \<Longrightarrow> excess_bits a = 0"
  by (subst excess_bits.simps) simp

lemma round53_small: "a < 2 ^ 53 \<Longrightarrow> round53 a = a"
  by (simp add: round53_def excess_bits_small)

lemma truediv2_small: "\<bar>a\<bar> < 2 ^ 53 \<Longrightarrow> truediv2 a = Inr (real_of_int a / 2)"
proof -
  assume h: "\<bar>a\<bar> < 2 ^ 53"
  have "sgn a * \<bar>a\<bar> = a" by (simp add: mult_sgn_abs)
  with h show ?thesis
    by (simp add: truediv2_def round53_small Let_def del: of_int_mult)
qed

lemma ceiling_half: "\<lceil>real_of_int a / 2\<rceil> = (a + 1) div 2"
proof -
  have "real_of_int a / 2 = real_of_int a / real_of_int 2" by simp
  then have "\<lceil>real_of_int a / 2\<rceil> = - ((- a) div 2)"
    by (simp only: ceiling_divide_eq_div)
  also have "\<dots> = (a + 1) div 2" by presburger
  finally show ?thesis .
qed

lemma compute_n_small:
  "\<bar>t + 1\<bar> < 2 ^ 53 \<Longrightarrow> compute_n_per_surface_from_total t = Inr (max 3 ((t + 2) div 2))"
  by (simp add: compute_n_per_surface_from_total_def truediv2_small ceiling_half del: of_int_add)

lemma length_linspace [simp]: "length (linspace a b n) = n"
  by (simp add: linspace_def)

lemma length_cosine_spacing [simp]: "length (cosine_spacing n) = n"
  by (simp add: cosine_spacing_def)

lemma length_thickness_distribution [simp]: "length (thickness_distribution x t) = length x"
  by (simp add: thickness_distribution_def)

lemma camber_line_total:
  "p \<noteq> 1 \<Longrightarrow>
   \<exists>yc dyc. camber_line x m p = Inr (yc, dyc) \<and> length yc = length x \<and> length dyc = length x"
  by (simp add: camber_line_def)

lemma surfaces_length:
  "length yc = length x \<Longrightarrow> length dyc = length x \<Longrightarrow> length yt = length x \<Longrightarrow>
   surfaces x yc dyc yt = (xu, yu, xl, yl) \<Longrightarrow>
   length xu = length x \<and> length yu = length x \<and> length xl = length x \<and> length yl = length x"
  by (auto simp: surfaces_def Let_def)

lemma length_loop:
  "3 \<le> N \<Longrightarrow> length us = N \<Longrightarrow> length ls = N \<Longrightarrow>
   length (rev us @ tl ls) = 2 * N - 1 \<and> 5 \<le> length (rev us @ tl ls)"
  by auto

section \<open>The code parser\<close>

text \<open>
  Claim C6 says the parser succeeds exactly on the strings that are 4 characters long and
  all decimal digits. The code strips surrounding whitespace first, so a longer string
  succeeds too: \<open>'' 2412''\<close> has five characters and parses.
\<close>

theorem parse_naca_accepts_padded:
  "length '' 2412'' \<noteq> 4 \<and> parse_naca '' 2412'' = Inr (2 / 100, 4 / 10, 12 / 100)"
  by (simp add: parse_naca_def strip_def isspace_def isdigit_def isdigit_char_def
      ascii_digit_def py_int_def digit_val_def)

lemma parse_naca_latin1: "parse_naca s = parse_naca_on latin1 s"
proof -
  have st: "strip_on latin1 s = strip s" by (simp add: strip_on_def strip_def latin1_def)
  have dg: "\<And>t. isdigit_on latin1 t = isdigit t" by (simp add: isdigit_on_def isdigit_def latin1_def)
  have dv: "\<And>t acc. list_all ascii_digit t \<Longrightarrow>
      decimal_value latin1 acc t = Some (foldl (\<lambda>a c. 10 * a + digit_val c) acc t)"
  proof -
    fix t acc show "list_all ascii_digit t \<Longrightarrow>
      decimal_value latin1 acc t = Some (foldl (\<lambda>a c. 10 * a + digit_val c) acc t)"
      by (induction t arbitrary: acc) (auto simp: latin1_def ascii_digit_def digit_val_def)
  qed
  have dn: "\<And>t acc. \<not> list_all ascii_digit t \<Longrightarrow> decimal_value latin1 acc t = None"
  proof -
    fix t acc show "\<not> list_all ascii_digit t \<Longrightarrow> decimal_value latin1 acc t = None"
      by (induction t arbitrary: acc) (auto simp: latin1_def)
  qed
  have pint: "py_int_on latin1 = py_int"
  proof
    fix t show "py_int_on latin1 t = py_int t"
      using dv [of t 0] dn [of t 0] by (auto simp: py_int_on_def py_int_def)
  qed
  show ?thesis
    unfolding parse_naca_def parse_naca_on_def st dg pint ..
qed

lemma py_int_on_single:
  "py_int_on db [c] = (case decimal db c of None \<Rightarrow> Inl InvalidIntLiteral | Some d \<Rightarrow> Inr (int d))"
  by (simp add: py_int_on_def split: option.splits)

lemma py_int_on_pair:
  "py_int_on db [c, c'] =
     (case decimal db c of None \<Rightarrow> Inl InvalidIntLiteral
      | Some d \<Rightarrow> (case decimal db c' of None \<Rightarrow> Inl InvalidIntLiteral
                   | Some d' \<Rightarrow> Inr (10 * int d + int d')))"
  by (simp add: py_int_on_def split: option.splits)

lemma parse_naca_on_four:
  assumes code: "strip_on db s = [c1, c2, c3, c4]"
    and dig: "is_digit db c1" "is_digit db c2" "is_digit db c3" "is_digit db c4"
  shows "parse_naca_on db s =
           (case (decimal db c1, decimal db c2, decimal db c3, decimal db c4) of
              (Some d1, Some d2, Some d3, Some d4) \<Rightarrow>
                 Inr (real d1 / 100, real d2 / 10, real (10 * d3 + d4) / 100)
            | _ \<Rightarrow> Inl InvalidIntLiteral)"
  using dig
  by (simp add: parse_naca_on_def code isdigit_on_def py_int_on_single py_int_on_pair Let_def
      split: option.splits)

text \<open>
  Claim C6, amended: the parser strips leading and trailing whitespace first. It succeeds
  exactly on the input strings whose stripped form is 4 characters long with all
  characters decimal digits, and then returns (digit 1 / 100, digit 2 / 10, two-digit
  value / 100); an input whose stripped form is not 4 characters long or has a character
  that is not a digit fails with \<^verbatim>\<open>InvalidCodeFormat\<close>. This holds for strings of any code
  points and any character tables in which a decimal digit is a digit.
\<close>

theorem parse_naca_on_characterisation:
  assumes dd: "\<And>c d. decimal db c = Some d \<Longrightarrow> is_digit db c"
  shows "((\<exists>r. parse_naca_on db s = Inr r) \<longleftrightarrow>
            length (strip_on db s) = 4 \<and> (\<forall>c \<in> set (strip_on db s). decimal db c \<noteq> None)) \<and>
         (strip_on db s = [c1, c2, c3, c4] \<and> decimal db c1 = Some d1 \<and> decimal db c2 = Some d2 \<and>
            decimal db c3 = Some d3 \<and> decimal db c4 = Some d4 \<longrightarrow>
            parse_naca_on db s = Inr (real d1 / 100, real d2 / 10, real (10 * d3 + d4) / 100)) \<and>
         (length (strip_on db s) \<noteq> 4 \<or> (\<exists>c \<in> set (strip_on db s). \<not> is_digit db c) \<longrightarrow>
            parse_naca_on db s = Inl InvalidCodeFormat)"
proof (intro conjI impI)
  show "parse_naca_on db s = Inl InvalidCodeFormat"
    if "length (strip_on db s) \<noteq> 4 \<or> (\<exists>c \<in> set (strip_on db s). \<not> is_digit db c)"
    using that by (auto simp: parse_naca_on_def isdigit_on_def Let_def list_all_iff)
  show "parse_naca_on db s = Inr (real d1 / 100, real d2 / 10, real (10 * d3 + d4) / 100)"
    if h: "strip_on db s = [c1, c2, c3, c4] \<and> decimal db c1 = Some d1 \<and> decimal db c2 = Some d2 \<and>
            decimal db c3 = Some d3 \<and> decimal db c4 = Some d4"
  proof -
    from h dd have "is_digit db c1" "is_digit db c2" "is_digit db c3" "is_digit db c4" by blast+
    with h show ?thesis by (simp add: parse_naca_on_four)
  qed
  show "(\<exists>r. parse_naca_on db s = Inr r) \<longleftrightarrow>
            length (strip_on db s) = 4 \<and> (\<forall>c \<in> set (strip_on db s). decimal db c \<noteq> None)"
  proof
    assume ok: "\<exists>r. parse_naca_on db s = Inr r"
    then have len: "length (strip_on db s) = 4" and dig: "list_all (is_digit db) (strip_on db s)"
      by (auto simp: parse_naca_on_def isdigit_on_def Let_def split: if_splits)
    from len obtain c1 c2 c3 c4 where code: "strip_on db s = [c1, c2, c3, c4]"
      using length4E by blast
    from dig code have "is_digit db c1" "is_digit db c2" "is_digit db c3" "is_digit db c4" by simp_all
    from parse_naca_on_four [OF code this] ok
    have "decimal db c1 \<noteq> None \<and> decimal db c2 \<noteq> None \<and> decimal db c3 \<noteq> None \<and> decimal db c4 \<noteq> None"
      by (auto split: option.splits)
    with len code show "length (strip_on db s) = 4 \<and> (\<forall>c \<in> set (strip_on db s). decimal db c \<noteq> None)"
      by simp
  next
    assume r: "length (strip_on db s) = 4 \<and> (\<forall>c \<in> set (strip_on db s). decimal db c \<noteq> None)"
    then obtain c1 c2 c3 c4 where code: "strip_on db s = [c1, c2, c3, c4]"
      using length4E by blast
    with r obtain d1 d2 d3 d4 where d: "decimal db c1 = Some d1" "decimal db c2 = Some d2"
      "decimal db c3 = Some d3" "decimal db c4 = Some d4"
      by auto
    with dd have "is_digit db c1" "is_digit db c2" "is_digit db c3" "is_digit db c4" by blast+
    from parse_naca_on_four [OF code this] d
    have "parse_naca_on db s = Inr (real d1 / 100, real d2 / 10, real (10 * d3 + d4) / 100)"
      by simp
    then show "\<exists>r. parse_naca_on db s = Inr r" ..
  qed
qed

lemma digits_excerpt_consistent: "decimal digits_excerpt c = Some d \<Longrightarrow> is_digit digits_excerpt c"
  by (auto simp: digits_excerpt_def split: if_splits)

theorem parse_naca_on_characterisation_witness:
  "parse_naca_on digits_excerpt [65298, 65300, 65297, 65298] = Inr (2 / 100, 4 / 10, 12 / 100) \<and>
   parse_naca_on digits_excerpt [32, 50, 52, 49, 50, 10] = Inr (2 / 100, 4 / 10, 12 / 100) \<and>
   parse_naca_on digits_excerpt [49, 50, 97, 52] = Inl InvalidCodeFormat"
proof -
  have s1: "strip_on digits_excerpt [65298, 65300, 65297, 65298] = [65298, 65300, 65297, 65298]"
    and s2: "strip_on digits_excerpt [32, 50, 52, 49, 50, 10] = [50, 52, 49, 50]"
    and s3: "strip_on digits_excerpt [49, 50, 97, 52] = [49, 50, 97, 52]"
    by (simp_all add: strip_on_def digits_excerpt_def)
  have d1: "decimal digits_excerpt 65298 = Some 2" "decimal digits_excerpt 65300 = Some 4"
    "decimal digits_excerpt 65297 = Some 1"
    and d2: "decimal digits_excerpt 50 = Some 2" "decimal digits_excerpt 52 = Some 4"
    "decimal digits_excerpt 49 = Some 1"
    and n3: "\<not> is_digit digits_excerpt 97"
    by (simp_all add: digits_excerpt_def)
  note t = parse_naca_on_characterisation [OF digits_excerpt_consistent]
  from t [where s = "[65298, 65300, 65297, 65298]" and ?c1.0 = 65298 and ?c2.0 = 65300
      and ?c3.0 = 65297 and ?c4.0 = 65298 and ?d1.0 = 2 and ?d2.0 = 4 and ?d3.0 = 1 and ?d4.0 = 2] s1 d1
  have a: "parse_naca_on digits_excerpt [65298, 65300, 65297, 65298] = Inr (2 / 100, 4 / 10, 12 / 100)"
    by simp
  from t [where s = "[32, 50, 52, 49, 50, 10]" and ?c1.0 = 50 and ?c2.0 = 52
      and ?c3.0 = 49 and ?c4.0 = 50 and ?d1.0 = 2 and ?d2.0 = 4 and ?d3.0 = 1 and ?d4.0 = 2] s2 d2
  have b: "parse_naca_on digits_excerpt [32, 50, 52, 49, 50, 10] = Inr (2 / 100, 4 / 10, 12 / 100)"
    by simp
  from t [where s = "[49, 50, 97, 52]"] s3 n3
  have c: "parse_naca_on digits_excerpt [49, 50, 97, 52] = Inl InvalidCodeFormat"
    by simp
  from a b c show ?thesis by blast
qed

section \<open>Points per surface from the total\<close>

text \<open>
  Below \<open>2 ^ 53\<close> the float quotient is exact and the result is the least \<open>n \<ge> 3\<close> with
  \<open>2 * n - 1 \<ge> t\<close>.
\<close>

lemma compute_n_minimal_below_2_53:
  assumes "3 \<le> t" and "t + 1 < 2 ^ 53"
  shows "\<exists>n. compute_n_per_surface_from_total t = Inr n \<and> 3 \<le> n \<and> t \<le> 2 * n - 1 \<and>
             (\<forall>k. 3 \<le> k \<and> t \<le> 2 * k - 1 \<longrightarrow> n \<le> k)"
proof -
  from assms have "\<bar>t + 1\<bar> < 2 ^ 53" by simp
  then have c: "compute_n_per_surface_from_total t = Inr (max 3 ((t + 2) div 2))"
    by (rule compute_n_small)
  have "3 \<le> max 3 ((t + 2) div 2)" "t \<le> 2 * max 3 ((t + 2) div 2) - 1"
    "\<forall>k. 3 \<le> k \<and> t \<le> 2 * k - 1 \<longrightarrow> max 3 ((t + 2) div 2) \<le> k"
    by (auto simp: max_def)
  with c show ?thesis by blast
qed

text \<open>
  Claim C3: for every integer \<open>t \<ge> 3\<close> the result \<open>n\<close> satisfies \<open>2 * n - 1 \<ge> t\<close> and is
  minimal. The quotient \<^verbatim>\<open>(t + 1) / 2\<close> is a float: at \<open>t = 2 ^ 53\<close> the exact value
  \<open>2 ^ 52 + 1 / 2\<close> is not a binary64 number and rounds to \<open>2 ^ 52\<close>, so the result is
  \<open>2 ^ 52\<close> and \<open>2 * n - 1\<close> falls short of \<open>t\<close>.
\<close>

theorem compute_n_at_2_53:
  "compute_n_per_surface_from_total 9007199254740992 = Inr 4503599627370496 \<and>
   2 * (4503599627370496 :: int) - 1 < 9007199254740992"
  by (simp add: compute_n_per_surface_from_total_def truediv2_def round53_def)

theorem compute_n_at_2_53_witness:
  "compute_n_per_surface_from_total (2 ^ 53) = Inr (2 ^ 52)"
  using compute_n_at_2_53 by simp

section \<open>Loop assembly\<close>

text \<open>
  Claim C8: for every valid code and every requested per-surface count \<open>n\<close>, with
  \<open>N = max 3 n\<close> the effective count, the generated loop is the reversed upper surface
  followed by the lower surface without its first point; it has \<open>2 * N - 1\<close> points, at
  least 5.
\<close>

theorem loop_assembly:
  assumes "parse_naca code = Inr (m, p, t)"
  shows "\<exists>yc dyc xu yu xl yl.
           camber_line (cosine_spacing (nat (max 3 n))) m p = Inr (yc, dyc) \<and>
           surfaces (cosine_spacing (nat (max 3 n))) yc dyc
             (thickness_distribution (cosine_spacing (nat (max 3 n))) t) = (xu, yu, xl, yl) \<and>
           length xu = nat (max 3 n) \<and> length xl = nat (max 3 n) \<and>
           length yu = nat (max 3 n) \<and> length yl = nat (max 3 n) \<and>
           generate_naca4 code n = Inr (rev xu @ tl xl, rev yu @ tl yl, (m, p, t)) \<and>
           length (rev xu @ tl xl) = 2 * nat (max 3 n) - 1 \<and>
           length (rev yu @ tl yl) = 2 * nat (max 3 n) - 1 \<and>
           5 \<le> length (rev xu @ tl xl)"
proof -
  let ?N = "nat (max 3 n)"
  let ?x = "cosine_spacing ?N"
  have N: "3 \<le> ?N" by simp
  from assms have "p \<noteq> 1" by (rule parse_naca_p_ne_1)
  then obtain yc dyc where cl: "camber_line ?x m p = Inr (yc, dyc)"
    and lyc: "length yc = length ?x" and ldyc: "length dyc = length ?x"
    using camber_line_total by blast
  obtain xu yu xl yl
    where sf: "surfaces ?x yc dyc (thickness_distribution ?x t) = (xu, yu, xl, yl)"
    by (metis prod_cases4)
  from surfaces_length [OF lyc ldyc _ sf]
  have len: "length xu = ?N" "length yu = ?N" "length xl = ?N" "length yl = ?N"
    by simp_all
  from N len have gt: "length xl > 1" "length yl > 1" by linarith+
  have gen: "generate_naca4 code n = Inr (rev xu @ tl xl, rev yu @ tl yl, (m, p, t))"
    using gt by (simp add: generate_naca4_def assms cl sf Let_def)
  from length_loop [OF N len(1) len(3)] length_loop [OF N len(2) len(4)]
  have "length (rev xu @ tl xl) = 2 * ?N - 1" "length (rev yu @ tl yl) = 2 * ?N - 1"
    "5 \<le> length (rev xu @ tl xl)"
    by blast+
  with cl sf len gen show ?thesis by blast
qed

theorem loop_assembly_witness:
  "\<exists>yc dyc xu yu xl yl.
     camber_line (cosine_spacing 3) (2 / 100) (4 / 10) = Inr (yc, dyc) \<and>
     surfaces (cosine_spacing 3) yc dyc (thickness_distribution (cosine_spacing 3) (12 / 100))
       = (xu, yu, xl, yl) \<and>
     generate_naca4 ''2412'' 1 = Inr (rev xu @ tl xl, rev yu @ tl yl, (2 / 100, 4 / 10, 12 / 100)) \<and>
     length (rev xu @ tl xl) = 5"
proof -
  from loop_assembly [OF parse_naca_2412, of 1] show ?thesis
    by simp blast
qed

section \<open>Cosine spacing\<close>

lemma linspace_nth:
  assumes "2 \<le> n" and "i < n"
  shows "linspace a b n ! i = a + real i * ((b - a) / real (n - 1))"
proof (cases "i < n - 1")
  case True
  with assms show ?thesis by (simp add: linspace_def nth_append)
next
  case False
  with assms have i: "i = n - 1" by simp
  from assms have "real (n - 1) \<noteq> 0" by simp
  then have "a + real (n - 1) * ((b - a) / real (n - 1)) = b" by simp
  with assms show ?thesis by (simp add: linspace_def nth_append i)
qed

lemma cosine_spacing_nth:
  assumes "2 \<le> n" and "i < n"
  shows "cosine_spacing n ! i = 0.5 * (1 - cos (real i * pi / real (n - 1)))"
  using assms by (simp add: cosine_spacing_def linspace_nth)

lemma beta_range:
  assumes "2 \<le> n" and "i < n"
  shows "0 \<le> real i * pi / real (n - 1)" and "real i * pi / real (n - 1) \<le> pi"
proof -
  show "0 \<le> real i * pi / real (n - 1)" by simp
  from assms have "real i \<le> real (n - 1)" by simp
  then have "real i * pi \<le> real (n - 1) * pi"
    by (intro mult_right_mono) simp_all
  with assms show "real i * pi / real (n - 1) \<le> pi"
    by (simp add: divide_le_eq)
qed

lemma beta_strict:
  assumes "2 \<le> n" and "i < j"
  shows "real i * pi / real (n - 1) < real j * pi / real (n - 1)"
  using assms by (simp add: divide_strict_right_mono)

lemma cosine_spacing_strict_mono:
  assumes n2: "2 \<le> n" and ij: "i < j" "j < n"
  shows "cosine_spacing n ! i < cosine_spacing n ! j"
proof -
  from ij have i: "i < n" by simp
  have "cos (real j * pi / real (n - 1)) < cos (real i * pi / real (n - 1))"
    using beta_range [OF n2 i] beta_range [OF n2 ij(2)] beta_strict [OF n2 ij(1)]
    by (intro cos_monotone_0_pi) simp_all
  with ij i n2 show ?thesis
    by (simp add: cosine_spacing_nth)
qed

lemma cosine_spacing_unit:
  assumes "2 \<le> n" and "i < n"
  shows "0 \<le> cosine_spacing n ! i" and "cosine_spacing n ! i \<le> 1"
proof -
  have "- 1 \<le> cos (real i * pi / real (n - 1))" "cos (real i * pi / real (n - 1)) \<le> 1"
    by simp_all
  then show "0 \<le> cosine_spacing n ! i" and "cosine_spacing n ! i \<le> 1"
    unfolding cosine_spacing_nth [OF assms] by simp_all
qed

text \<open>
  In exact arithmetic \<^verbatim>\<open>cosine_spacing(n)\<close> returns, for every \<open>n \<ge> 3\<close>, exactly \<open>n\<close> values
  \<open>0.5 * (1 - cos \<beta>\<^sub>i)\<close> with the \<open>\<beta>\<^sub>i\<close> evenly spaced over \<open>[0, \<pi>]\<close>, both endpoints
  included, strictly increasing from 0 to 1.
\<close>

lemma cosine_spacing_exact:
  assumes "3 \<le> n"
  shows "length (cosine_spacing n) = n \<and> length (linspace 0 pi n) = n \<and>
         linspace 0 pi n ! 0 = 0 \<and> linspace 0 pi n ! (n - 1) = pi \<and>
         (\<forall>i. i + 1 < n \<longrightarrow> linspace 0 pi n ! (i + 1) - linspace 0 pi n ! i = pi / real (n - 1)) \<and>
         (\<forall>i < n. cosine_spacing n ! i = 0.5 * (1 - cos (linspace 0 pi n ! i))) \<and>
         cosine_spacing n ! 0 = 0 \<and> cosine_spacing n ! (n - 1) = 1 \<and>
         (\<forall>i j. i < j \<and> j < n \<longrightarrow> cosine_spacing n ! i < cosine_spacing n ! j)"
proof -
  from assms have n2: "2 \<le> n" by simp
  have b0: "linspace 0 pi n ! 0 = 0"
    using n2 by (simp add: linspace_nth)
  have bl: "linspace 0 pi n ! (n - 1) = pi"
    using n2 by (simp add: linspace_nth)
  have even: "\<forall>i. i + 1 < n \<longrightarrow> linspace 0 pi n ! (i + 1) - linspace 0 pi n ! i = pi / real (n - 1)"
    using n2 by (simp add: linspace_nth algebra_simps add_divide_distrib)
  have nth: "\<forall>i < n. cosine_spacing n ! i = 0.5 * (1 - cos (linspace 0 pi n ! i))"
    by (simp add: cosine_spacing_def)
  have first: "cosine_spacing n ! 0 = 0"
    using n2 by (simp add: cosine_spacing_nth)
  have last: "cosine_spacing n ! (n - 1) = 1"
    using n2 by (simp add: cosine_spacing_nth)
  have mono: "\<forall>i j. i < j \<and> j < n \<longrightarrow> cosine_spacing n ! i < cosine_spacing n ! j"
    using cosine_spacing_strict_mono [OF n2] by blast
  from b0 bl even nth first last mono show ?thesis by simp
qed


lemma fl_0 [simp]: "fl 0 = 0"
  by (simp add: fl_def)















section \<open>Symmetric profiles\<close>

lemma surfaces_zero_camber:
  "length yt = length x \<Longrightarrow>
   surfaces x (map (\<lambda>_. 0) x) (map (\<lambda>_. 0) x) yt = (x, yt, x, map uminus yt)"
  by (simp add: surfaces_def Let_def list_eq_iff_nth_eq)

lemma digit_val_0: "digit_val a = 0 \<longleftrightarrow> a = CHR ''0''"
proof -
  have "(of_char a = (48::nat)) = (of_char a = (of_char CHR ''0'' :: nat))"
    by simp
  also have "\<dots> = (a = CHR ''0'')"
    by (rule of_char_eq_iff)
  finally show ?thesis
    by (auto simp: digit_val_def)
qed

lemma parse_naca_digits:
  assumes "parse_naca code = Inr (m, p, t)"
  shows "(m = 0 \<longleftrightarrow> strip code ! 0 = CHR ''0'') \<and> (p = 0 \<longleftrightarrow> strip code ! 1 = CHR ''0'')"
proof -
  from assms have len: "length (strip code) = 4"
    by (auto simp: parse_naca_def Let_def split: if_splits)
  then obtain a b c d where code: "strip code = [a, b, c, d]"
    using length4E by blast
  from assms have m: "m = real_of_int (digit_val a) / 100"
    and p: "p = real_of_int (digit_val b) / 10"
    by (auto simp: parse_naca_def Let_def code py_int_def split: if_splits)
  show ?thesis by (simp add: m p code digit_val_0)
qed

lemma generate_naca4_zero_camber:
  assumes parse: "parse_naca code = Inr (m, p, t)" and zero: "m = 0 \<or> p = 0"
  shows "generate_naca4 code n =
           Inr (rev (cosine_spacing (nat (max 3 n))) @ tl (cosine_spacing (nat (max 3 n))),
                rev (thickness_distribution (cosine_spacing (nat (max 3 n))) t)
                  @ map uminus (tl (thickness_distribution (cosine_spacing (nat (max 3 n))) t)),
                (m, p, t))"
proof -
  let ?x = "cosine_spacing (nat (max 3 n))"
  have cl: "camber_line ?x m p = Inr (map (\<lambda>_. 0) ?x, map (\<lambda>_. 0) ?x)"
    using zero by (auto simp: camber_line_def)
  have len: "length ?x > 1" by simp
  show ?thesis
    using len
    by (simp add: generate_naca4_def parse cl surfaces_zero_camber Let_def map_tl
        del: length_cosine_spacing)
qed

text \<open>
  Claim C9: for every code with zero max camber (first digit 0) and every per-surface
  count, the profile is symmetric about \<open>y = 0\<close>: at each parameter value the lower
  \<open>x\<close> equals the upper \<open>x\<close> and the lower \<open>y\<close> is the negative of the upper \<open>y\<close>, and
  the loop is assembled from these surfaces.
\<close>

theorem symmetric_profile:
  assumes "parse_naca code = Inr (m, p, t)" and "strip code ! 0 = CHR ''0''"
  shows "camber_line (cosine_spacing (nat (max 3 n))) m p
           = Inr (map (\<lambda>_. 0) (cosine_spacing (nat (max 3 n))),
                  map (\<lambda>_. 0) (cosine_spacing (nat (max 3 n)))) \<and>
         (\<exists>xu yu xl yl.
            surfaces (cosine_spacing (nat (max 3 n)))
              (map (\<lambda>_. 0) (cosine_spacing (nat (max 3 n))))
              (map (\<lambda>_. 0) (cosine_spacing (nat (max 3 n))))
              (thickness_distribution (cosine_spacing (nat (max 3 n))) t) = (xu, yu, xl, yl) \<and>
            xl = xu \<and> yl = map uminus yu \<and>
            generate_naca4 code n = Inr (rev xu @ tl xl, rev yu @ tl yl, (m, p, t)))"
proof -
  let ?x = "cosine_spacing (nat (max 3 n))"
  let ?yt = "thickness_distribution ?x t"
  from assms parse_naca_digits have m: "m = 0" by blast
  then have cl: "camber_line ?x m p = Inr (map (\<lambda>_. 0) ?x, map (\<lambda>_. 0) ?x)"
    by (simp add: camber_line_def)
  have sf: "surfaces ?x (map (\<lambda>_. 0) ?x) (map (\<lambda>_. 0) ?x) ?yt = (?x, ?yt, ?x, map uminus ?yt)"
    by (rule surfaces_zero_camber) simp
  have gen: "generate_naca4 code n = Inr (rev ?x @ tl ?x, rev ?yt @ tl (map uminus ?yt), (m, p, t))"
    using generate_naca4_zero_camber [OF assms(1), of n] m by (simp add: map_tl)
  from cl sf gen show ?thesis by blast
qed

lemma parse_naca_0012: "parse_naca ''0012'' = Inr (0, 0, 12 / 100)"
  by (simp add: parse_naca_def strip_def isspace_def isdigit_def isdigit_char_def
      ascii_digit_def py_int_def digit_val_def)

lemma strip_0012: "strip ''0012'' = ''0012''"
  by (simp add: strip_def isspace_def)

theorem symmetric_profile_witness:
  "\<exists>xu yu xl yl.
     surfaces (cosine_spacing 3) (map (\<lambda>_. 0) (cosine_spacing 3)) (map (\<lambda>_. 0) (cosine_spacing 3))
       (thickness_distribution (cosine_spacing 3) (12 / 100)) = (xu, yu, xl, yl) \<and>
     xl = xu \<and> yl = map uminus yu \<and>
     generate_naca4 ''0012'' 3 = Inr (rev xu @ tl xl, rev yu @ tl yl, (0, 0, 12 / 100))"
proof -
  have "strip ''0012'' ! 0 = CHR ''0''" by (simp add: strip_0012)
  from symmetric_profile [OF parse_naca_0012 this, of 3] show ?thesis
    by simp
qed

section \<open>The camber line at the branch boundary\<close>

lemma isCont_piecewise:
  fixes f g :: "real \<Rightarrow> real"
  assumes f: "isCont f a" and g: "isCont g a" and eq: "f a = g a"
  shows "isCont (\<lambda>x. if x < a \<or> (x = a \<and> b) then f x else g x) a" (is "isCont ?h a")
proof -
  have ha: "?h a = f a" using eq by simp
  have fl: "(f \<longlongrightarrow> f a) (at_left a)" and gr: "(g \<longlongrightarrow> f a) (at_right a)"
    using f g eq by (simp_all add: isCont_def filterlim_at_split)
  have "(?h \<longlongrightarrow> f a) (at_left a)"
    by (subst filterlim_cong [OF refl refl, where g = f])
       (simp_all add: eventually_at_filter fl)
  moreover have "(?h \<longlongrightarrow> f a) (at_right a)"
    by (subst filterlim_cong [OF refl refl, where g = g])
       (simp_all add: eventually_at_filter gr)
  ultimately have "(?h \<longlongrightarrow> f a) (at a)"
    by (rule filterlim_split_at)
  with ha show ?thesis by (simp add: isCont_def)
qed

lemma camber_fwd_at_p: "p \<noteq> 0 \<Longrightarrow> yc_fwd m p p = m \<and> dyc_fwd m p p = 0"
  by (simp add: yc_fwd_def dyc_fwd_def power2_eq_square)

lemma camber_aft_at_p: "p \<noteq> 1 \<Longrightarrow> yc_aft m p p = m \<and> dyc_aft m p p = 0"
proof -
  assume p: "p \<noteq> 1"
  have "(1 - 2 * p) + 2 * p * p - p ^ 2 = (1 - p) ^ 2"
    by (simp add: power2_eq_square algebra_simps)
  with p show ?thesis by (simp add: yc_aft_def dyc_aft_def)
qed

text \<open>
  Claim C10: for \<open>m\<close> in \<open>(0, 0.09]\<close> and \<open>p\<close> in \<open>(0, 0.9]\<close> the forward and the aft
  formulas agree at \<open>x = p\<close>: both give the camber value \<open>m\<close> and the slope 0. So the
  piecewise camber line and its slope are continuous at \<open>p\<close>, whichever branch the
  boundary point itself is given to (\<open>b\<close> chooses), and \<^verbatim>\<open>camber_line\<close> returns \<open>(m, 0)\<close>
  there.
\<close>

theorem camber_branches_agree:
  assumes "0 < m" and "m \<le> 9 / 100" and "0 < p" and "p \<le> 9 / 10"
  shows "yc_fwd m p p = m \<and> yc_aft m p p = m \<and> dyc_fwd m p p = 0 \<and> dyc_aft m p p = 0 \<and>
         camber_line [p] m p = Inr ([m], [0]) \<and>
         isCont (\<lambda>v. if v < p \<or> (v = p \<and> b) then yc_fwd m p v else yc_aft m p v) p \<and>
         isCont (\<lambda>v. if v < p \<or> (v = p \<and> b) then dyc_fwd m p v else dyc_aft m p v) p"
proof -
  from assms have p0: "p \<noteq> 0" and p1: "p \<noteq> 1" and m0: "m \<noteq> 0" by auto
  note fwd = camber_fwd_at_p [OF p0, of m] and aft = camber_aft_at_p [OF p1, of m]
  have cl: "camber_line [p] m p = Inr ([m], [0])"
    using p0 p1 m0 fwd by (simp add: camber_line_def idx1_def)
  have c1: "isCont (yc_fwd m p) p" "isCont (yc_aft m p) p"
    "isCont (dyc_fwd m p) p" "isCont (dyc_aft m p) p"
    unfolding yc_fwd_def yc_aft_def dyc_fwd_def dyc_aft_def
    by (intro continuous_intros)+
  have "isCont (\<lambda>v. if v < p \<or> (v = p \<and> b) then yc_fwd m p v else yc_aft m p v) p"
    using c1 fwd aft by (intro isCont_piecewise) simp_all
  moreover have "isCont (\<lambda>v. if v < p \<or> (v = p \<and> b) then dyc_fwd m p v else dyc_aft m p v) p"
    using c1 fwd aft by (intro isCont_piecewise) simp_all
  ultimately show ?thesis using fwd aft cl by blast
qed

theorem camber_branches_agree_witness:
  "yc_fwd (2 / 100) (4 / 10) (4 / 10) = 2 / 100 \<and> yc_aft (2 / 100) (4 / 10) (4 / 10) = 2 / 100 \<and>
   dyc_fwd (2 / 100) (4 / 10) (4 / 10) = 0 \<and> dyc_aft (2 / 100) (4 / 10) (4 / 10) = 0 \<and>
   camber_line [4 / 10] (2 / 100) (4 / 10) = Inr ([2 / 100], [0])"
  using camber_branches_agree [of "2 / 100" "4 / 10"] by simp

section \<open>The validator\<close>

lemma finite_row_Some_iff:
  "finite_row r = Some (a, b, c) \<longleftrightarrow> r = (Fin a, Fin b, Fin c)"
  by (cases r rule: finite_row.cases) auto

lemma finite_rows_map_Fin:
  "finite_rows (map (\<lambda>(a, b, c). (Fin a, Fin b, Fin c)) rows) = Some rows"
  by (induction rows) auto

lemma finite_rows_SomeD:
  "finite_rows coords = Some rows \<Longrightarrow> coords = map (\<lambda>(a, b, c). (Fin a, Fin b, Fin c)) rows"
proof (induction coords arbitrary: rows)
  case Nil
  then show ?case by simp
next
  case (Cons r rs)
  from Cons.prems obtain v vs where v: "finite_row r = Some v" and vs: "finite_rows rs = Some vs"
    and rows: "rows = v # vs"
    by (auto split: option.splits)
  obtain a b c where "v = (a, b, c)" by (cases v) auto
  with v have "r = (Fin a, Fin b, Fin c)" by (simp add: finite_row_Some_iff)
  with Cons.IH [OF vs] rows \<open>v = (a, b, c)\<close> show ?case by simp
qed

lemma finite_rows_Some_iff:
  "finite_rows coords = Some rows \<longleftrightarrow> coords = map (\<lambda>(a, b, c). (Fin a, Fin b, Fin c)) rows"
  using finite_rows_SomeD finite_rows_map_Fin by blast

lemma span_zero_iff:
  assumes "vs \<noteq> []"
  shows "axis_span vs = 0 \<longleftrightarrow> (\<exists>a. set vs = {a})"
proof
  assume "axis_span vs = 0"
  then have eq: "Max (set vs) = Min (set vs)" by (simp add: axis_span_def)
  have "\<forall>v \<in> set vs. v = Min (set vs)"
  proof
    fix v assume v: "v \<in> set vs"
    then have "Min (set vs) \<le> v" "v \<le> Max (set vs)" by simp_all
    with eq show "v = Min (set vs)" by simp
  qed
  moreover from assms have "Min (set vs) \<in> set vs" by (simp add: Min_in)
  ultimately have "set vs = {Min (set vs)}" by blast
  then show "\<exists>a. set vs = {a}" ..
next
  assume "\<exists>a. set vs = {a}"
  then show "axis_span vs = 0" by (auto simp: axis_span_def)
qed

lemma span_pos:
  assumes "a \<in> set vs" and "b \<in> set vs" and "a < b"
  shows "0 < axis_span vs"
proof -
  from assms have "Min (set vs) \<le> a" "b \<le> Max (set vs)" by simp_all
  with assms show ?thesis unfolding axis_span_def by linarith
qed

lemma rows_coincide_iff:
  assumes "rows \<noteq> []"
  shows "(axis_span (map fst rows) = 0 \<and> axis_span (map (fst \<circ> snd) rows) = 0 \<and> axis_span (map (snd \<circ> snd) rows) = 0)
         \<longleftrightarrow> (\<exists>a b c. set rows = {(a, b, c)})" (is "?L \<longleftrightarrow> ?R")
proof
  assume ?L
  with assms obtain a b c where a: "fst ` set rows = {a}" and b: "(fst \<circ> snd) ` set rows = {b}"
    and c: "(snd \<circ> snd) ` set rows = {c}"
    by (auto simp: span_zero_iff)
  have "\<forall>r \<in> set rows. r = (a, b, c)"
  proof
    fix r assume "r \<in> set rows"
    with a b c have "fst r = a" "fst (snd r) = b" "snd (snd r) = c" by auto
    then show "r = (a, b, c)" by (simp add: prod_eq_iff)
  qed
  with assms have "set rows = {(a, b, c)}" by (cases rows) auto
  then show ?R by blast
next
  assume ?R
  then obtain a b c where "set rows = {(a, b, c)}" by blast
  then have "set (map fst rows) = {a}" "set (map (fst \<circ> snd) rows) = {b}"
    "set (map (snd \<circ> snd) rows) = {c}" by simp_all
  then show ?L by (simp add: axis_span_def)
qed

lemma validate_geometry_degenerate_spans:
  "validate_geometry coords = Inl DegenerateGeometry \<longleftrightarrow>
     (\<exists>rows. finite_rows coords = Some rows \<and> rows \<noteq> [] \<and> axis_span (map fst rows) = 0 \<and>
        axis_span (map (fst \<circ> snd) rows) = 0 \<and> axis_span (map (snd \<circ> snd) rows) = 0)"
  by (auto simp: validate_geometry_def split: option.splits)

lemma coincide_transfer:
  "(\<exists>rows. coords = map (\<lambda>(a, b, c). (Fin a, Fin b, Fin c)) rows \<and> rows \<noteq> [] \<and>
      (\<exists>a b c. set rows = {(a, b, c)})) \<longleftrightarrow>
   (coords \<noteq> [] \<and> (\<exists>a b c. set coords = {(Fin a, Fin b, Fin c)}))" (is "?L \<longleftrightarrow> ?R")
proof
  assume ?L
  then show ?R by auto
next
  assume R: ?R
  then obtain a b c where s: "set coords = {(Fin a, Fin b, Fin c)}" by blast
  then have "\<forall>r \<in> set coords. r = (Fin a, Fin b, Fin c)" by simp
  then have "coords = map (\<lambda>(a, b, c). (Fin a, Fin b, Fin c)) (replicate (length coords) (a, b, c))"
    by (induction coords) auto
  moreover from R have "replicate (length coords) (a, b, c) \<noteq> []" by simp
  moreover from R have "set (replicate (length coords) (a, b, c)) = {(a, b, c)}" by simp
  ultimately show ?L by blast
qed

lemma validate_geometry_degenerate_coincide:
  "validate_geometry coords = Inl DegenerateGeometry \<longleftrightarrow>
     coords \<noteq> [] \<and> (\<exists>a b c. set coords = {(Fin a, Fin b, Fin c)})"
proof -
  have "validate_geometry coords = Inl DegenerateGeometry \<longleftrightarrow>
     (\<exists>rows. coords = map (\<lambda>(a, b, c). (Fin a, Fin b, Fin c)) rows \<and> rows \<noteq> [] \<and>
        (\<exists>a b c. set rows = {(a, b, c)}))"
    unfolding validate_geometry_degenerate_spans finite_rows_Some_iff
    using rows_coincide_iff by (metis (no_types, lifting))
  then show ?thesis by (simp only: coincide_transfer)
qed

lemma zip3_Fin:
  "zip (map Fin as) (zip (map Fin bs) (map Fin cs))
     = map (\<lambda>(a, b, c). (Fin a, Fin b, Fin c)) (zip as (zip bs cs))"
  by (simp add: zip_map_map zip_map2 zip_map1 case_prod_beta)

lemma validate_geometry_finite:
  assumes len: "length bs = length as" "length cs = length as" and ne: "as \<noteq> []"
    and sp: "0 < axis_span as \<or> 0 < axis_span bs \<or> 0 < axis_span cs"
  shows "validate_geometry (zip (map Fin as) (zip (map Fin bs) (map Fin cs))) = Inr True"
proof -
  let ?rows = "zip as (zip bs cs)"
  have fr: "finite_rows (zip (map Fin as) (zip (map Fin bs) (map Fin cs))) = Some ?rows"
    by (simp only: zip3_Fin finite_rows_map_Fin)
  from len ne have rne: "?rows \<noteq> []" by (cases as; cases bs; cases cs) auto
  from len have cols: "map fst ?rows = as" "map (fst \<circ> snd) ?rows = bs" "map (snd \<circ> snd) ?rows = cs"
    by (simp_all add: list_eq_iff_nth_eq)
  from sp have "\<not> (axis_span as = 0 \<and> axis_span bs = 0 \<and> axis_span cs = 0)" by auto
  then show ?thesis
    unfolding validate_geometry_def fr using rne by (simp add: cols)
qed

lemma span_scaled_pos:
  assumes "a \<in> set vs" and "b \<in> set vs" and "a \<noteq> b" and "c \<noteq> (0::real)"
  shows "0 < axis_span (map ((*) c) vs)"
proof -
  have in_a: "c * a \<in> set (map ((*) c) vs)" and in_b: "c * b \<in> set (map ((*) c) vs)"
    using assms by simp_all
  from assms have "c * a \<noteq> c * b" by simp
  then consider "c * a < c * b" | "c * b < c * a" by linarith
  then show ?thesis
    using span_pos in_a in_b by cases blast+
qed

lemma scale_by_Fin: "map (scale_by (Fin c)) vs = map Fin (map ((*) c) vs)"
  by (simp add: scale_by_def)

lemma map_to_3d_validates:
  assumes len: "length y2d = length x2d" and a: "a \<in> set x2d" and b: "b \<in> set x2d"
    and ab: "a \<noteq> b" and c: "c \<noteq> 0" and ax: "upper normal \<in> {''X'', ''Y'', ''Z''}"
  shows "\<exists>coords. map_to_3d x2d y2d normal (Fin c) = Inr coords \<and>
           validate_geometry coords = Inr True \<and> length coords = length x2d"
proof -
  let ?X = "map ((*) c) x2d" and ?Y = "map ((*) c) y2d" and ?O = "map (\<lambda>_. 0::real) x2d"
  from a have ne: "x2d \<noteq> []" by auto
  have sp: "0 < axis_span ?X" using a b ab c by (rule span_scaled_pos)
  from ax consider "upper normal = ''X''" | "upper normal = ''Y''" | "upper normal = ''Z''"
    by auto
  then show ?thesis
  proof cases
    case 1
    then have m: "map_to_3d x2d y2d normal (Fin c) = Inr (zip (map Fin ?O) (zip (map Fin ?X) (map Fin ?Y)))"
      using len by (simp add: map_to_3d_def scale_by_Fin Let_def comp_def)
    have "validate_geometry (zip (map Fin ?O) (zip (map Fin ?X) (map Fin ?Y))) = Inr True"
      using len ne sp by (intro validate_geometry_finite) simp_all
    with m len show ?thesis by simp
  next
    case 2
    then have m: "map_to_3d x2d y2d normal (Fin c) = Inr (zip (map Fin ?X) (zip (map Fin ?O) (map Fin ?Y)))"
      using len by (simp add: map_to_3d_def scale_by_Fin Let_def comp_def)
    have "validate_geometry (zip (map Fin ?X) (zip (map Fin ?O) (map Fin ?Y))) = Inr True"
      using len ne sp by (intro validate_geometry_finite) simp_all
    with m len show ?thesis by simp
  next
    case 3
    then have m: "map_to_3d x2d y2d normal (Fin c) = Inr (zip (map Fin ?X) (zip (map Fin ?Y) (map Fin ?O)))"
      using len by (simp add: map_to_3d_def scale_by_Fin Let_def comp_def)
    have "validate_geometry (zip (map Fin ?X) (zip (map Fin ?Y) (map Fin ?O))) = Inr True"
      using len ne sp by (intro validate_geometry_finite) simp_all
    with m len show ?thesis by simp
  qed
qed

lemma cosine_spacing_endpoints:
  assumes "2 \<le> n"
  shows "0 \<in> set (cosine_spacing n)" and "1 \<in> set (cosine_spacing n)"
proof -
  from assms have "cosine_spacing n ! 0 = 0" "cosine_spacing n ! (n - 1) = 1"
    by (simp_all add: cosine_spacing_nth)
  moreover from assms have "0 < length (cosine_spacing n)" "n - 1 < length (cosine_spacing n)"
    by simp_all
  ultimately show "0 \<in> set (cosine_spacing n)" and "1 \<in> set (cosine_spacing n)"
    by (metis nth_mem)+
qed

lemma zero_camber_validates:
  assumes parse: "parse_naca code = Inr (m, p, t)" and zero: "m = 0 \<or> p = 0"
    and c: "c \<noteq> 0" and ax: "upper normal \<in> {''X'', ''Y'', ''Z''}"
  shows "\<exists>x2d y2d pts. generate_naca4 code n = Inr (x2d, y2d, (m, p, t)) \<and>
           map_to_3d x2d y2d normal (Fin c) = Inr pts \<and> validate_geometry pts = Inr True"
proof -
  let ?x = "cosine_spacing (nat (max 3 n))"
  let ?yt = "thickness_distribution ?x t"
  let ?x2d = "rev ?x @ tl ?x" and ?y2d = "rev ?yt @ map uminus (tl ?yt)"
  have gen: "generate_naca4 code n = Inr (?x2d, ?y2d, (m, p, t))"
    using parse zero by (rule generate_naca4_zero_camber)
  have len: "length ?y2d = length ?x2d" by simp
  have "2 \<le> nat (max 3 n)" by simp
  then have "0 \<in> set ?x2d" "1 \<in> set ?x2d"
    using cosine_spacing_endpoints by simp_all
  from map_to_3d_validates [OF len this _ c ax]
  obtain pts where "map_to_3d ?x2d ?y2d normal (Fin c) = Inr pts" "validate_geometry pts = Inr True"
    by auto
  with gen show ?thesis by blast
qed

lemma zero_camber_run:
  assumes parse: "parse_naca code = Inr (m, p, t)" and zero: "m = 0 \<or> p = 0"
    and c: "c \<noteq> 0" and ax: "upper normal \<in> {''X'', ''Y'', ''Z''}"
    and pts: "points + 1 < 2 ^ 53"
  shows "\<exists>r. run code normal (Fin c) points = Inr r"
proof -
  from pts have "\<bar>max 3 points + 1\<bar> < 2 ^ 53" by simp
  then have cn: "compute_n_per_surface_from_total (max 3 points) = Inr (max 3 ((max 3 points + 2) div 2))"
    by (rule compute_n_small)
  from zero_camber_validates [OF parse zero c ax, of "max 3 ((max 3 points + 2) div 2)"]
  obtain x2d y2d coords where
    "generate_naca4 code (max 3 ((max 3 points + 2) div 2)) = Inr (x2d, y2d, (m, p, t))"
    "map_to_3d x2d y2d normal (Fin c) = Inr coords" "validate_geometry coords = Inr True"
    by blast
  then show ?thesis
    by (simp add: run_def cn Let_def)
qed

lemma parse_naca_0000: "parse_naca ''0000'' = Inr (0, 0, 0)"
  by (simp add: parse_naca_def strip_def isspace_def isdigit_def isdigit_char_def
      ascii_digit_def py_int_def digit_val_def)

lemma parse_naca_2012: "parse_naca ''2012'' = Inr (2 / 100, 0, 12 / 100)"
  by (simp add: parse_naca_def strip_def isspace_def isdigit_def isdigit_char_def
      ascii_digit_def py_int_def digit_val_def)

lemma upper_Z: "upper ''Z'' = ''Z''" "upper ''z'' = ''Z''"
  by code_simp+

lemma thickness_zero: "thickness_distribution x 0 = map (\<lambda>_. 0) x"
  by (simp add: thickness_distribution_def)

lemma cosine_spacing_3: "cosine_spacing 3 = [0, 1 / 2, 1]"
  by (simp add: cosine_spacing_def linspace_def upt_rec numeral_eq_Suc)

text \<open>
  Claim C4: the validator raises \<^verbatim>\<open>DegenerateGeometry\<close> if and only if the bounding-box
  span of the point set is zero along every axis, that is, all points coincide (a
  non-finite coordinate has no zero span and is rejected before). In particular code
  \<open>0000\<close> with chord 1 passes validation on every axis and for every point count: all
  its \<open>y\<close> values are zero, but \<open>x\<close> spans \<open>0..1\<close>.
\<close>

theorem degenerate_iff_points_coincide:
  "(validate_geometry coords = Inl DegenerateGeometry \<longleftrightarrow>
      (\<exists>rows. finite_rows coords = Some rows \<and> rows \<noteq> [] \<and> axis_span (map fst rows) = 0 \<and>
         axis_span (map (fst \<circ> snd) rows) = 0 \<and> axis_span (map (snd \<circ> snd) rows) = 0)) \<and>
   (validate_geometry coords = Inl DegenerateGeometry \<longleftrightarrow>
      coords \<noteq> [] \<and> (\<exists>a b c. set coords = {(Fin a, Fin b, Fin c)})) \<and>
   (upper normal \<in> {''X'', ''Y'', ''Z''} \<longrightarrow>
      (\<exists>x2d y2d pts. generate_naca4 ''0000'' n = Inr (x2d, y2d, (0, 0, 0)) \<and> set y2d = {0} \<and>
         map_to_3d x2d y2d normal (Fin 1) = Inr pts \<and> validate_geometry pts = Inr True))"
proof (intro conjI impI)
  show "validate_geometry coords = Inl DegenerateGeometry \<longleftrightarrow>
      (\<exists>rows. finite_rows coords = Some rows \<and> rows \<noteq> [] \<and> axis_span (map fst rows) = 0 \<and>
         axis_span (map (fst \<circ> snd) rows) = 0 \<and> axis_span (map (snd \<circ> snd) rows) = 0)"
    by (rule validate_geometry_degenerate_spans)
  show "validate_geometry coords = Inl DegenerateGeometry \<longleftrightarrow>
      coords \<noteq> [] \<and> (\<exists>a b c. set coords = {(Fin a, Fin b, Fin c)})"
    by (rule validate_geometry_degenerate_coincide)
next
  assume ax: "upper normal \<in> {''X'', ''Y'', ''Z''}"
  let ?x = "cosine_spacing (nat (max 3 n))"
  have gen: "generate_naca4 ''0000'' n
      = Inr (rev ?x @ tl ?x, rev (map (\<lambda>_. 0) ?x) @ map uminus (tl (map (\<lambda>_. 0) ?x)), (0, 0, 0))"
    using generate_naca4_zero_camber [OF parse_naca_0000, of n] by (simp add: thickness_zero)
  have "set (rev (map (\<lambda>_. 0::real) ?x) @ map uminus (tl (map (\<lambda>_. 0) ?x))) = {0}"
  proof -
    have "length ?x \<noteq> 0" by simp
    then have "?x \<noteq> []" by (simp only: length_0_conv not_False_eq_True)
    then show ?thesis by (cases ?x) (auto simp: map_tl)
  qed
  moreover from zero_camber_validates [OF parse_naca_0000 _ _ ax, of 1 n]
  obtain x2d y2d pts where "generate_naca4 ''0000'' n = Inr (x2d, y2d, (0, 0, 0))"
    "map_to_3d x2d y2d normal (Fin 1) = Inr pts" "validate_geometry pts = Inr True"
    by auto
  ultimately show "\<exists>x2d y2d pts. generate_naca4 ''0000'' n = Inr (x2d, y2d, (0, 0, 0)) \<and> set y2d = {0} \<and>
         map_to_3d x2d y2d normal (Fin 1) = Inr pts \<and> validate_geometry pts = Inr True"
    using gen by auto
qed

theorem degenerate_iff_points_coincide_witness:
  "validate_geometry [(Fin 1, Fin 2, Fin 0), (Fin 1, Fin 2, Fin 0)] = Inl DegenerateGeometry \<and>
   validate_geometry [(Fin 0, Fin 0, Fin 0), (Fin 1, Fin 0, Fin 0)] \<noteq> Inl DegenerateGeometry \<and>
   (\<exists>x2d y2d pts. generate_naca4 ''0000'' 3 = Inr (x2d, y2d, (0, 0, 0)) \<and> set y2d = {0} \<and>
      map_to_3d x2d y2d ''z'' (Fin 1) = Inr pts \<and> validate_geometry pts = Inr True)"
  using degenerate_iff_points_coincide [of "[(Fin 1, Fin 2, Fin 0), (Fin 1, Fin 2, Fin 0)]" "''z''" 3]
    degenerate_iff_points_coincide [of "[(Fin 0, Fin 0, Fin 0), (Fin 1, Fin 0, Fin 0)]" "''z''" 3]
  by (simp add: upper_Z axis_span_def)

section \<open>Camber location zero\<close>

text \<open>
  Claim C2 says that a code with camber location 0 and nonzero max camber divides by zero
  and the run fails with \<^verbatim>\<open>NonFiniteGeometry\<close>. For \<open>2012\<close> the camber line is
  identically zero and the run succeeds.
\<close>

theorem camber_location_zero_runs:
  "camber_line (cosine_spacing 3) (2 / 100) 0 = Inr ([0, 0, 0], [0, 0, 0]) \<and>
   \<not> isl (run ''2012'' ''Z'' (Fin 1) 5)"
proof -
  have "camber_line (cosine_spacing 3) (2 / 100) 0 = Inr ([0, 0, 0], [0, 0, 0])"
    by (simp add: camber_line_def cosine_spacing_3)
  moreover have "\<exists>r. run ''2012'' ''Z'' (Fin 1) 5 = Inr r"
    by (rule zero_camber_run [OF parse_naca_2012]) (simp_all add: upper_Z)
  ultimately show ?thesis by auto
qed

text \<open>
  Claim C2, amended: for a code whose camber location is 0 (second digit 0), with zero or
  nonzero max camber, \<^verbatim>\<open>camber_line\<close> takes the guard \<^verbatim>\<open>m == 0.0 or p == 0.0\<close>: camber
  value and slope are identically zero, nothing is divided, and the profile is the
  symmetric one. With a finite nonzero chord and a valid axis the points pass validation,
  and the run returns its result.
\<close>

theorem zero_camber_location_symmetric_branch:
  assumes "parse_naca code = Inr (m, p, t)" and "strip code ! 1 = CHR ''0''"
  shows "p = 0 \<and> camber_line x m p = Inr (map (\<lambda>_. 0) x, map (\<lambda>_. 0) x) \<and>
         generate_naca4 code n =
           Inr (rev (cosine_spacing (nat (max 3 n))) @ tl (cosine_spacing (nat (max 3 n))),
                rev (thickness_distribution (cosine_spacing (nat (max 3 n))) t)
                  @ map uminus (tl (thickness_distribution (cosine_spacing (nat (max 3 n))) t)),
                (m, p, t)) \<and>
         (c \<noteq> 0 \<and> upper normal \<in> {''X'', ''Y'', ''Z''} \<longrightarrow>
            (\<exists>x2d y2d pts. generate_naca4 code n = Inr (x2d, y2d, (m, p, t)) \<and>
               map_to_3d x2d y2d normal (Fin c) = Inr pts \<and> validate_geometry pts = Inr True)) \<and>
         (c \<noteq> 0 \<and> upper normal \<in> {''X'', ''Y'', ''Z''} \<and> points + 1 < 2 ^ 53 \<longrightarrow>
            (\<exists>r. run code normal (Fin c) points = Inr r))"
proof -
  from assms parse_naca_digits have p: "p = 0" by blast
  then have z: "m = 0 \<or> p = 0" by simp
  have cl: "camber_line x m p = Inr (map (\<lambda>_. 0) x, map (\<lambda>_. 0) x)"
    using p by (simp add: camber_line_def)
  note gen = generate_naca4_zero_camber [OF assms(1) z, of n]
  have v: "c \<noteq> 0 \<and> upper normal \<in> {''X'', ''Y'', ''Z''} \<longrightarrow>
            (\<exists>x2d y2d pts. generate_naca4 code n = Inr (x2d, y2d, (m, p, t)) \<and>
               map_to_3d x2d y2d normal (Fin c) = Inr pts \<and> validate_geometry pts = Inr True)"
    using zero_camber_validates [OF assms(1) z] by blast
  have r: "c \<noteq> 0 \<and> upper normal \<in> {''X'', ''Y'', ''Z''} \<and> points + 1 < 2 ^ 53 \<longrightarrow>
            (\<exists>r. run code normal (Fin c) points = Inr r)"
    using zero_camber_run [OF assms(1) z] by blast
  from p cl gen v r show ?thesis by blast
qed

lemma strip_2012: "strip ''2012'' = ''2012''"
  by (simp add: strip_def isspace_def)

theorem zero_camber_location_symmetric_branch_witness:
  "camber_line [0, 1 / 2, 1] (2 / 100) 0 = Inr ([0, 0, 0], [0, 0, 0]) \<and>
   (\<exists>x2d y2d pts. generate_naca4 ''2012'' 3 = Inr (x2d, y2d, (2 / 100, 0, 12 / 100)) \<and>
      map_to_3d x2d y2d ''Z'' (Fin 1) = Inr pts \<and> validate_geometry pts = Inr True) \<and>
   (\<exists>r. run ''2012'' ''Z'' (Fin 1) 50 = Inr r)"
proof -
  have d: "strip ''2012'' ! 1 = CHR ''0''" by (simp add: strip_2012)
  note t = zero_camber_location_symmetric_branch [OF parse_naca_2012 d,
      of "[0, 1 / 2, 1]" 3 1 "''Z''" 50]
  have h1: "(1::real) \<noteq> 0 \<and> upper ''Z'' \<in> {''X'', ''Y'', ''Z''}"
    by (simp add: upper_Z)
  have h2: "(1::real) \<noteq> 0 \<and> upper ''Z'' \<in> {''X'', ''Y'', ''Z''} \<and> (50::int) + 1 < 2 ^ 53"
    by (simp add: upper_Z)
  from t have "camber_line [0, 1 / 2, 1] (2 / 100) 0
      = Inr (map (\<lambda>_. 0) [0, 1 / 2, 1 :: real], map (\<lambda>_. 0) [0, 1 / 2, 1 :: real])"
    by blast
  then have a: "camber_line [0, 1 / 2, 1] (2 / 100) 0 = Inr ([0, 0, 0], [0, 0, 0])"
    by simp
  from t h1 have b: "\<exists>x2d y2d pts. generate_naca4 ''2012'' 3 = Inr (x2d, y2d, (2 / 100, 0, 12 / 100)) \<and>
      map_to_3d x2d y2d ''Z'' (Fin 1) = Inr pts \<and> validate_geometry pts = Inr True"
    by blast
  from t h2 have c: "\<exists>r. run ''2012'' ''Z'' (Fin 1) 50 = Inr r"
    by blast
  from a b c show ?thesis by blast
qed

section \<open>Surface points, elementwise\<close>

lemma thickness_distribution_map: "thickness_distribution x t = map (yt_at t) x"
  by (simp add: thickness_distribution_def yt_at_def Let_def)

lemma camber_line_map:
  "p \<noteq> 1 \<Longrightarrow> camber_line x m p = Inr (map (yc_at m p) x, map (dyc_at m p) x)"
  by (simp add: camber_line_def yc_at_def dyc_at_def)

lemma surfaces_map:
  "surfaces x (map (yc_at m p) x) (map (dyc_at m p) x) (map (yt_at t) x)
     = (map (xu_at m p t) x, map (yu_at m p t) x, map (xl_at m p t) x, map (yl_at m p t) x)"
  by (simp add: surfaces_def Let_def list_eq_iff_nth_eq xu_at_def yu_at_def xl_at_def yl_at_def)

lemma generate_naca4_map:
  assumes "parse_naca code = Inr (m, p, t)"
  shows "generate_naca4 code n =
           Inr (rev (map (xu_at m p t) (cosine_spacing (nat (max 3 n))))
                  @ tl (map (xl_at m p t) (cosine_spacing (nat (max 3 n)))),
                rev (map (yu_at m p t) (cosine_spacing (nat (max 3 n))))
                  @ tl (map (yl_at m p t) (cosine_spacing (nat (max 3 n)))),
                (m, p, t))"
proof -
  from assms have "p \<noteq> 1" by (rule parse_naca_p_ne_1)
  moreover have "1 < max 3 n" by simp
  ultimately show ?thesis
    by (simp add: generate_naca4_def assms camber_line_map thickness_distribution_map
        surfaces_map Let_def)
qed

lemma sqrt_ge_self: "0 \<le> v \<Longrightarrow> v \<le> 1 \<Longrightarrow> v \<le> sqrt v"
proof -
  assume v: "0 \<le> v" "v \<le> 1"
  then have s: "0 \<le> sqrt v" "sqrt v \<le> 1" by simp_all
  then have "sqrt v * sqrt v \<le> sqrt v * 1" by (intro mult_left_mono) simp_all
  with v show ?thesis by simp
qed

lemma thickness_poly_nonneg:
  assumes v: "0 \<le> v" "v \<le> 1"
  shows "0 \<le> 0.2969 * sqrt v - 0.1260 * v - 0.3516 * v ^ 2 + 0.2843 * v ^ 3 - 0.1015 * v ^ 4"
proof -
  have sq: "0.1709 - 0.3516 * v + 0.1828 * v ^ 2 = 0.1828 * (v - 0.96) ^ 2 + (0.00243152 - 0.000624 * v)"
    by (simp add: power2_eq_square algebra_simps)
  have "0 \<le> 0.1828 * (v - 0.96) ^ 2" by simp
  moreover from v have "0 \<le> 0.00243152 - 0.000624 * v" by simp
  ultimately have q: "0 \<le> 0.1709 - 0.3516 * v + 0.1828 * v ^ 2" by (simp only: sq)
  from v have "v ^ 3 \<le> v ^ 2" by (simp add: power_decreasing)
  then have "0.1015 * (v ^ 2 * v) \<le> 0.1015 * (v ^ 2 * 1)"
    using v by (intro mult_left_mono) simp_all
  with q have "0 \<le> 0.1709 - 0.3516 * v + 0.2843 * v ^ 2 - 0.1015 * v ^ 3"
    by (simp add: power3_eq_cube power2_eq_square)
  with v have "0 \<le> v * (0.1709 - 0.3516 * v + 0.2843 * v ^ 2 - 0.1015 * v ^ 3)"
    by (intro mult_nonneg_nonneg)
  also have "\<dots> = 0.2969 * v - 0.1260 * v - 0.3516 * v ^ 2 + 0.2843 * v ^ 3 - 0.1015 * v ^ 4"
    by (simp add: power2_eq_square power3_eq_cube power4_eq_xxxx algebra_simps)
  also have "\<dots> \<le> 0.2969 * sqrt v - 0.1260 * v - 0.3516 * v ^ 2 + 0.2843 * v ^ 3 - 0.1015 * v ^ 4"
    using sqrt_ge_self [OF v] by simp
  finally show ?thesis .
qed

lemma thickness_poly_upper:
  assumes v: "0 \<le> v" "v \<le> 1"
  shows "0.2969 * sqrt v - 0.1260 * v - 0.3516 * v ^ 2 + 0.2843 * v ^ 3 - 0.1015 * v ^ 4 \<le> 0.1709"
proof -
  define s where "s = sqrt v"
  from v have s: "0 \<le> s" "s \<le> 1" by (simp_all add: s_def)
  have vs: "v = s * s" using v by (simp add: s_def)
  from s have "0 \<le> 1 - s" "0 \<le> 0.1709 - 0.126 * s" by simp_all
  then have "0 \<le> (1 - s) * (0.1709 - 0.126 * s)"
    by (rule mult_nonneg_nonneg)
  also have "\<dots> = 0.1709 - 0.2969 * s + 0.126 * (s * s)"
    by (simp add: field_simps)
  finally have a: "0.2969 * s - 0.126 * v \<le> 0.1709" using vs by simp
  from v have "v ^ 3 \<le> v ^ 2" by (simp add: power_decreasing)
  then have "0.2843 * v ^ 3 \<le> 0.2843 * v ^ 2" by simp
  also have "\<dots> \<le> 0.3516 * v ^ 2" by (intro mult_right_mono) simp_all
  finally have b: "0.2843 * v ^ 3 \<le> 0.3516 * v ^ 2" .
  have "0.2969 * s - 0.1260 * v - 0.3516 * v ^ 2 + 0.2843 * v ^ 3 - 0.1015 * v ^ 4
      \<le> 0.2969 * s - 0.1260 * v - 0.3516 * v ^ 2 + 0.2843 * v ^ 3"
    by simp
  also from a b have "\<dots> \<le> 0.1709" by simp
  finally show ?thesis unfolding s_def .
qed

lemma yt_at_bounds:
  assumes "0 \<le> v" "v \<le> 1" "0 \<le> t"
  shows "0 \<le> yt_at t v" and "yt_at t v \<le> 5 * t * 0.1709"
proof -
  from assms have m: "max v 0 = v" by simp
  show "0 \<le> yt_at t v"
    unfolding yt_at_def m using thickness_poly_nonneg [OF assms(1,2)] assms(3)
    by (intro mult_nonneg_nonneg) simp_all
  have "5.0 * t * (0.2969 * sqrt v - 0.1260 * v - 0.3516 * v ^ 2 + 0.2843 * v ^ 3 - 0.1015 * v ^ 4)
      \<le> 5.0 * t * 0.1709"
    using thickness_poly_upper [OF assms(1,2)] assms(3)
    by (intro mult_left_mono) simp_all
  then show "yt_at t v \<le> 5 * t * 0.1709"
    unfolding yt_at_def m by simp
qed

lemma abs_sin_arctan_le: "\<bar>sin (arctan d)\<bar> \<le> \<bar>d\<bar>"
proof -
  have "1 \<le> sqrt (1 + d\<^sup>2)" by simp
  then have "\<bar>d\<bar> / sqrt (1 + d\<^sup>2) \<le> \<bar>d\<bar> / 1"
    by (intro divide_left_mono) (simp_all add: add_pos_nonneg)
  moreover have "\<bar>sin (arctan d)\<bar> = \<bar>d\<bar> / sqrt (1 + d\<^sup>2)"
    by (simp add: sin_arctan)
  ultimately show ?thesis by simp
qed

lemma dyc_at_2412_bound:
  assumes "0 \<le> v" "v \<le> 1"
  shows "\<bar>dyc_at (2 / 100) (4 / 10) v\<bar> \<le> 1 / 10"
proof (cases "idx1 (4 / 10) v")
  case True
  then have "dyc_at (2 / 100) (4 / 10) v = (1 / 4) * (4 / 10 - v)"
    by (simp add: dyc_at_def dyc_fwd_def power2_eq_square)
  moreover from True have "v < 4 / 10 + 1 / 10 ^ 12" by (simp add: idx1_def)
  ultimately show ?thesis using assms by (simp add: abs_le_iff)
next
  case False
  then have "dyc_at (2 / 100) (4 / 10) v = (1 / 9) * (4 / 10 - v)"
    by (simp add: dyc_at_def dyc_aft_def power2_eq_square)
  then show ?thesis using assms by (simp add: abs_le_iff)
qed

lemma abs_sin_le_1: "\<bar>sin (a::real)\<bar> \<le> 1"
  by (simp add: abs_le_iff)

lemma surface_offset_le:
  assumes "0 \<le> v" "v \<le> 1" "0 \<le> t"
  shows "\<bar>xu_at m p t v - v\<bar> \<le> yt_at t v" and "\<bar>xl_at m p t v - v\<bar> \<le> yt_at t v"
proof -
  have y: "0 \<le> yt_at t v" using assms by (rule yt_at_bounds)
  have "\<bar>yt_at t v * sin (arctan (dyc_at m p v))\<bar> = yt_at t v * \<bar>sin (arctan (dyc_at m p v))\<bar>"
    using y by (simp add: abs_mult)
  also have "\<dots> \<le> yt_at t v * 1"
    using y abs_sin_le_1 by (intro mult_left_mono) simp_all
  finally have "\<bar>yt_at t v * sin (arctan (dyc_at m p v))\<bar> \<le> yt_at t v" by simp
  then show "\<bar>xu_at m p t v - v\<bar> \<le> yt_at t v" and "\<bar>xl_at m p t v - v\<bar> \<le> yt_at t v"
    by (simp_all add: xu_at_def xl_at_def)
qed

lemma zero_camber_x: "m = 0 \<or> p = 0 \<Longrightarrow> xu_at m p t v = v \<and> xl_at m p t v = v"
  by (auto simp: xu_at_def xl_at_def dyc_at_def)

section \<open>Code 2412\<close>

lemma surface_offset_2412:
  assumes "0 \<le> v" "v \<le> 1"
  shows "\<bar>yt_at (12 / 100) v * sin (arctan (dyc_at (2 / 100) (4 / 10) v))\<bar> \<le> 11 / 1000"
proof -
  have y: "0 \<le> yt_at (12 / 100) v" "yt_at (12 / 100) v \<le> 5 * (12 / 100) * 0.1709"
    using yt_at_bounds [OF assms, of "12 / 100"] by simp_all
  have s: "\<bar>sin (arctan (dyc_at (2 / 100) (4 / 10) v))\<bar> \<le> 1 / 10"
    using abs_sin_arctan_le dyc_at_2412_bound [OF assms] by (rule order_trans)
  have "\<bar>yt_at (12 / 100) v * sin (arctan (dyc_at (2 / 100) (4 / 10) v))\<bar>
      = yt_at (12 / 100) v * \<bar>sin (arctan (dyc_at (2 / 100) (4 / 10) v))\<bar>"
    using y(1) by (simp add: abs_mult)
  also have "\<dots> \<le> (5 * (12 / 100) * 0.1709) * (1 / 10)"
    using y s by (intro mult_mono) simp_all
  also have "\<dots> \<le> 11 / 1000" by simp
  finally show ?thesis .
qed

lemma surfaces_inside_2412:
  assumes "11 / 1000 \<le> v" "v \<le> 989 / 1000"
  shows "0 \<le> xu_at (2 / 100) (4 / 10) (12 / 100) v" "xu_at (2 / 100) (4 / 10) (12 / 100) v \<le> 1"
    "0 \<le> xl_at (2 / 100) (4 / 10) (12 / 100) v" "xl_at (2 / 100) (4 / 10) (12 / 100) v \<le> 1"
proof -
  from assms have "0 \<le> v" "v \<le> 1" by simp_all
  from surface_offset_2412 [OF this] assms
  show "0 \<le> xu_at (2 / 100) (4 / 10) (12 / 100) v" "xu_at (2 / 100) (4 / 10) (12 / 100) v \<le> 1"
    "0 \<le> xl_at (2 / 100) (4 / 10) (12 / 100) v" "xl_at (2 / 100) (4 / 10) (12 / 100) v \<le> 1"
    unfolding xu_at_def xl_at_def by linarith+
qed

lemma yt_at_0: "yt_at t 0 = 0"
  by (simp add: yt_at_def)

lemma yt_at_1: "yt_at (12 / 100) 1 = 126 / 100000"
  by (simp add: yt_at_def)

lemma dyc_at_2412_1: "dyc_at (2 / 100) (4 / 10) 1 = - (1 / 15)"
  by (simp add: dyc_at_def idx1_def dyc_aft_def power2_eq_square)

lemma sin_arctan_15: "sin (arctan (- (1 / 15))) = - (1 / sqrt 226)"
proof -
  have "sqrt (1 + (1 / 15)\<^sup>2) = sqrt (226 / 15\<^sup>2)"
    by (simp add: power2_eq_square)
  also have "\<dots> = sqrt 226 / 15"
    by (simp only: real_sqrt_divide real_sqrt_abs)
  finally have "sqrt (1 + (1 / 15)\<^sup>2) = sqrt 226 / 15" .
  then show ?thesis by (simp add: sin_arctan)
qed

lemma trailing_edge_2412:
  "xu_at (2 / 100) (4 / 10) (12 / 100) 1 = 1 + 126 / 100000 / sqrt 226"
  "xl_at (2 / 100) (4 / 10) (12 / 100) 1 = 1 - 126 / 100000 / sqrt 226"
  by (simp_all only: xu_at_def xl_at_def yt_at_1 dyc_at_2412_1 sin_arctan_15)

lemma leading_edge: "xu_at m p t 0 = 0" "xl_at m p t 0 = 0"
  by (simp_all add: xu_at_def xl_at_def yt_at_0)

lemma sqrt_226_bounds: "15 < sqrt 226" "sqrt 226 < 16"
proof -
  have "sqrt (15\<^sup>2) < sqrt 226" by (simp only: real_sqrt_less_iff) simp
  then show "15 < sqrt 226" by simp
  have "sqrt 226 < sqrt (16\<^sup>2)" by (simp only: real_sqrt_less_iff) simp
  then show "sqrt 226 < 16" by simp
qed

lemma cos_pi_10_le: "cos (pi / 10) \<le> 978 / 1000"
proof -
  define c where "c = cos (pi / 10)"
  have c0: "0 \<le> c" unfolding c_def by (intro cos_ge_zero) (use pi_gt_zero in simp_all)
  have d: "cos (pi / 5) = 2 * c\<^sup>2 - 1"
    using cos_double_cos [of "pi / 10"] by (simp add: c_def)
  have "cos (pi / 5) < cos (pi / 6)"
    by (intro cos_monotone_0_pi) (use pi_gt_zero in simp_all)
  also have "\<dots> = sqrt 3 / 2" by (rule cos_30)
  also have "\<dots> \<le> 1733 / 2000"
  proof -
    have "sqrt 3 \<le> sqrt ((1733 / 1000)\<^sup>2)"
      by (simp only: real_sqrt_le_iff) (simp add: power2_eq_square)
    then show ?thesis by simp
  qed
  finally have "2 * c\<^sup>2 - 1 < 1733 / 2000" using d by simp
  then have "c\<^sup>2 \<le> (978 / 1000)\<^sup>2" by (simp add: power2_eq_square)
  then show ?thesis
    unfolding c_def [symmetric] using c0 by (simp add: power2_le_iff_abs_le)
qed

section \<open>Surface x-coordinates\<close>

text \<open>
  Claim C1 says every surface point has its \<open>x\<close> in \<open>[0, 1]\<close> before scaling. With camber
  the thickness is laid off perpendicular to the camber line, and the trailing edge is
  open: for \<open>2412\<close> with 3 points per surface the first loop point, the upper
  trailing-edge point \<open>xu = x - yt * sin \<theta>\<close> at \<open>x = 1\<close>, lies beyond 1.
\<close>

theorem upper_trailing_edge_beyond_chord:
  "\<not> isl (generate_naca4 ''2412'' 3) \<and> 1 < hd (fst (projr (generate_naca4 ''2412'' 3)))"
proof -
  have n: "nat (max 3 3) = 3" by simp
  have g: "generate_naca4 ''2412'' 3 =
      Inr (rev (map (xu_at (2 / 100) (4 / 10) (12 / 100)) [0, 1 / 2, 1])
             @ tl (map (xl_at (2 / 100) (4 / 10) (12 / 100)) [0, 1 / 2, 1]),
           rev (map (yu_at (2 / 100) (4 / 10) (12 / 100)) [0, 1 / 2, 1])
             @ tl (map (yl_at (2 / 100) (4 / 10) (12 / 100)) [0, 1 / 2, 1]),
           (2 / 100, 4 / 10, 12 / 100))"
    using generate_naca4_map [OF parse_naca_2412, of 3] unfolding n cosine_spacing_3 .
  have h: "hd (fst (projr (generate_naca4 ''2412'' 3))) = xu_at (2 / 100) (4 / 10) (12 / 100) 1"
    unfolding g by simp
  have "1 < xu_at (2 / 100) (4 / 10) (12 / 100) 1"
    unfolding trailing_edge_2412 by simp
  with h have "1 < hd (fst (projr (generate_naca4 ''2412'' 3)))" by simp
  moreover have "\<not> isl (generate_naca4 ''2412'' 3)" unfolding g by simp
  ultimately show ?thesis by simp
qed

text \<open>
  Claim C1, amended: for every valid code and every per-surface count, every parameter
  value \<open>x\<close> lies in \<open>[0, 1]\<close>; the surface coordinates \<open>xu = x - yt * sin \<theta>\<close> and
  \<open>xl = x + yt * sin \<theta>\<close> lie symmetrically about \<open>x\<close>, at most the local thickness
  \<open>yt\<close> away from it; with zero camber (first or second digit 0) both equal \<open>x\<close> and so
  lie in \<open>[0, 1]\<close>.
\<close>

theorem surface_x_about_parameter:
  assumes "parse_naca code = Inr (m, p, t)"
  shows "\<exists>yc dyc xu yu xl yl.
           camber_line (cosine_spacing (nat (max 3 n))) m p = Inr (yc, dyc) \<and>
           surfaces (cosine_spacing (nat (max 3 n))) yc dyc
             (thickness_distribution (cosine_spacing (nat (max 3 n))) t) = (xu, yu, xl, yl) \<and>
           (\<forall>i < nat (max 3 n).
              0 \<le> cosine_spacing (nat (max 3 n)) ! i \<and> cosine_spacing (nat (max 3 n)) ! i \<le> 1 \<and>
              xu ! i = cosine_spacing (nat (max 3 n)) ! i
                 - thickness_distribution (cosine_spacing (nat (max 3 n))) t ! i * sin (arctan (dyc ! i)) \<and>
              xl ! i = cosine_spacing (nat (max 3 n)) ! i
                 + thickness_distribution (cosine_spacing (nat (max 3 n))) t ! i * sin (arctan (dyc ! i)) \<and>
              xu ! i + xl ! i = 2 * cosine_spacing (nat (max 3 n)) ! i \<and>
              \<bar>xu ! i - cosine_spacing (nat (max 3 n)) ! i\<bar>
                 \<le> thickness_distribution (cosine_spacing (nat (max 3 n))) t ! i \<and>
              \<bar>xl ! i - cosine_spacing (nat (max 3 n)) ! i\<bar>
                 \<le> thickness_distribution (cosine_spacing (nat (max 3 n))) t ! i \<and>
              (m = 0 \<or> p = 0 \<longrightarrow>
                 xu ! i = cosine_spacing (nat (max 3 n)) ! i \<and>
                 xl ! i = cosine_spacing (nat (max 3 n)) ! i))"
proof -
  let ?N = "nat (max 3 n)"
  let ?x = "cosine_spacing ?N"
  let ?yt = "thickness_distribution ?x t"
  have N: "2 \<le> ?N" by simp
  from assms have p1: "p \<noteq> 1" by (rule parse_naca_p_ne_1)
  from parse_naca_InrD [OF assms] have t0: "0 \<le> t" by auto
  have cl: "camber_line ?x m p = Inr (map (yc_at m p) ?x, map (dyc_at m p) ?x)"
    using p1 by (rule camber_line_map)
  have sf: "surfaces ?x (map (yc_at m p) ?x) (map (dyc_at m p) ?x) ?yt
      = (map (xu_at m p t) ?x, map (yu_at m p t) ?x, map (xl_at m p t) ?x, map (yl_at m p t) ?x)"
    by (simp only: thickness_distribution_map surfaces_map)
  have el: "\<forall>i < ?N.
      0 \<le> ?x ! i \<and> ?x ! i \<le> 1 \<and>
      map (xu_at m p t) ?x ! i = ?x ! i - ?yt ! i * sin (arctan (map (dyc_at m p) ?x ! i)) \<and>
      map (xl_at m p t) ?x ! i = ?x ! i + ?yt ! i * sin (arctan (map (dyc_at m p) ?x ! i)) \<and>
      map (xu_at m p t) ?x ! i + map (xl_at m p t) ?x ! i = 2 * ?x ! i \<and>
      \<bar>map (xu_at m p t) ?x ! i - ?x ! i\<bar> \<le> ?yt ! i \<and>
      \<bar>map (xl_at m p t) ?x ! i - ?x ! i\<bar> \<le> ?yt ! i \<and>
      (m = 0 \<or> p = 0 \<longrightarrow> map (xu_at m p t) ?x ! i = ?x ! i \<and> map (xl_at m p t) ?x ! i = ?x ! i)"
  proof (intro allI impI)
    fix i assume i: "i < ?N"
    note u = cosine_spacing_unit [OF N i]
    note o = surface_offset_le [OF u t0, of m p]
    from i have li: "i < length ?x" by simp
    show "0 \<le> ?x ! i \<and> ?x ! i \<le> 1 \<and>
      map (xu_at m p t) ?x ! i = ?x ! i - ?yt ! i * sin (arctan (map (dyc_at m p) ?x ! i)) \<and>
      map (xl_at m p t) ?x ! i = ?x ! i + ?yt ! i * sin (arctan (map (dyc_at m p) ?x ! i)) \<and>
      map (xu_at m p t) ?x ! i + map (xl_at m p t) ?x ! i = 2 * ?x ! i \<and>
      \<bar>map (xu_at m p t) ?x ! i - ?x ! i\<bar> \<le> ?yt ! i \<and>
      \<bar>map (xl_at m p t) ?x ! i - ?x ! i\<bar> \<le> ?yt ! i \<and>
      (m = 0 \<or> p = 0 \<longrightarrow> map (xu_at m p t) ?x ! i = ?x ! i \<and> map (xl_at m p t) ?x ! i = ?x ! i)"
      unfolding thickness_distribution_map nth_map [OF li]
      using u o zero_camber_x [of m p t "?x ! i"]
      by (simp add: xu_at_def xl_at_def)
  qed
  from cl sf el show ?thesis by blast
qed

theorem surface_x_about_parameter_witness:
  "\<exists>yc dyc xu yu xl yl.
     camber_line (cosine_spacing 3) 0 0 = Inr (yc, dyc) \<and>
     surfaces (cosine_spacing 3) yc dyc (thickness_distribution (cosine_spacing 3) (12 / 100))
       = (xu, yu, xl, yl) \<and>
     0 \<le> cosine_spacing 3 ! 1 \<and> cosine_spacing 3 ! 1 \<le> 1 \<and>
     xu ! 1 = cosine_spacing 3 ! 1 \<and> xl ! 1 = cosine_spacing 3 ! 1"
proof -
  have n: "nat (max 3 3) = 3" by simp
  from surface_x_about_parameter [OF parse_naca_0012, of 3, unfolded n]
  obtain yc dyc xu yu xl yl where
    cl: "camber_line (cosine_spacing 3) 0 0 = Inr (yc, dyc)"
    and sf: "surfaces (cosine_spacing 3) yc dyc (thickness_distribution (cosine_spacing 3) (12 / 100))
       = (xu, yu, xl, yl)"
    and el: "\<forall>i < 3.
              0 \<le> cosine_spacing 3 ! i \<and> cosine_spacing 3 ! i \<le> 1 \<and>
              xu ! i = cosine_spacing 3 ! i
                 - thickness_distribution (cosine_spacing 3) (12 / 100) ! i * sin (arctan (dyc ! i)) \<and>
              xl ! i = cosine_spacing 3 ! i
                 + thickness_distribution (cosine_spacing 3) (12 / 100) ! i * sin (arctan (dyc ! i)) \<and>
              xu ! i + xl ! i = 2 * cosine_spacing 3 ! i \<and>
              \<bar>xu ! i - cosine_spacing 3 ! i\<bar>
                 \<le> thickness_distribution (cosine_spacing 3) (12 / 100) ! i \<and>
              \<bar>xl ! i - cosine_spacing 3 ! i\<bar>
                 \<le> thickness_distribution (cosine_spacing 3) (12 / 100) ! i \<and>
              ((0::real) = 0 \<or> (0::real) = 0 \<longrightarrow>
                 xu ! i = cosine_spacing 3 ! i \<and>
                 xl ! i = cosine_spacing 3 ! i)"
    by blast
  have "(1::nat) < 3" by simp
  with el have "0 \<le> cosine_spacing 3 ! 1 \<and> cosine_spacing 3 ! 1 \<le> 1 \<and>
     xu ! 1 = cosine_spacing 3 ! 1 \<and> xl ! 1 = cosine_spacing 3 ! 1"
    by blast
  with cl sf show ?thesis by blast
qed

section \<open>End to end: code 2412, 21 points, chord 2, normal Z\<close>

lemma cosine_spacing_11_inner:
  assumes "1 \<le> i" "i \<le> 9"
  shows "11 / 1000 \<le> cosine_spacing 11 ! i" "cosine_spacing 11 ! i \<le> 989 / 1000"
proof -
  have x1: "cosine_spacing 11 ! 1 = 0.5 * (1 - cos (pi / 10))"
    by (simp add: cosine_spacing_nth)
  have "cos (9 * pi / 10) = cos (pi - pi / 10)" by (simp add: field_simps)
  also have "\<dots> = - cos (pi / 10)" by (rule cos_pi_minus)
  finally have x9: "cosine_spacing 11 ! 9 = 0.5 * (1 + cos (pi / 10))"
    by (simp add: cosine_spacing_nth)
  from x1 cos_pi_10_le have lo: "11 / 1000 \<le> cosine_spacing 11 ! 1" by simp
  from x9 cos_pi_10_le have hi: "cosine_spacing 11 ! 9 \<le> 989 / 1000" by simp
  have "cosine_spacing 11 ! 1 \<le> cosine_spacing 11 ! i"
  proof (cases "i = 1")
    case False
    with assms have "1 < i" "i < 11" by simp_all
    then show ?thesis using cosine_spacing_strict_mono [of 11 1 i] by simp
  qed simp
  with lo show "11 / 1000 \<le> cosine_spacing 11 ! i" by simp
  have "cosine_spacing 11 ! i \<le> cosine_spacing 11 ! 9"
  proof (cases "i = 9")
    case False
    with assms have "i < 9" by simp
    then show ?thesis using cosine_spacing_strict_mono [of 11 i 9] by simp
  qed simp
  with hi show "cosine_spacing 11 ! i \<le> 989 / 1000" by simp
qed

lemma surfaces_2412_range:
  assumes "v \<in> set (cosine_spacing 11)"
  shows "0 \<le> xu_at (2 / 100) (4 / 10) (12 / 100) v \<and>
         xu_at (2 / 100) (4 / 10) (12 / 100) v \<le> 1 + 126 / 100000 / sqrt 226 \<and>
         0 \<le> xl_at (2 / 100) (4 / 10) (12 / 100) v \<and>
         xl_at (2 / 100) (4 / 10) (12 / 100) v \<le> 1 + 126 / 100000 / sqrt 226"
proof -
  from assms obtain i where i: "i < 11" and v: "v = cosine_spacing 11 ! i"
    by (metis in_set_conv_nth length_cosine_spacing)
  have te: "0 < 126 / 100000 / sqrt 226" "126 / 100000 / sqrt 226 < 1"
  proof -
    show "0 < 126 / 100000 / sqrt 226" by simp
    show "126 / 100000 / sqrt 226 < 1"
      using sqrt_226_bounds(1) by (simp add: divide_less_eq)
  qed
  consider "i = 0" | "i = 10" | "1 \<le> i \<and> i \<le> 9" using i by linarith
  then show ?thesis
  proof cases
    case 1
    then have "v = 0" using v by (simp add: cosine_spacing_nth)
    then have "xu_at (2 / 100) (4 / 10) (12 / 100) v = 0" "xl_at (2 / 100) (4 / 10) (12 / 100) v = 0"
      by (simp_all only: leading_edge)
    then show ?thesis using te(1) by (intro conjI) linarith+
  next
    case 2
    then have "v = 1" using v by (simp add: cosine_spacing_nth)
    then have "xu_at (2 / 100) (4 / 10) (12 / 100) v = 1 + 126 / 100000 / sqrt 226"
      "xl_at (2 / 100) (4 / 10) (12 / 100) v = 1 - 126 / 100000 / sqrt 226"
      by (simp_all only: trailing_edge_2412)
    then show ?thesis using te by (intro conjI) linarith+
  next
    case 3
    then have "11 / 1000 \<le> v" "v \<le> 989 / 1000"
      using cosine_spacing_11_inner v by simp_all
    from surfaces_inside_2412 [OF this] te(1) show ?thesis by (intro conjI) linarith+
  qed
qed

lemma axis_span_scaled_range:
  assumes rng: "\<forall>e \<in> set vs. lo \<le> e \<and> e \<le> hi" and lo: "lo \<in> set vs" and hi: "hi \<in> set vs"
    and c: "0 \<le> (c::real)"
  shows "axis_span (map ((*) c) vs) = c * hi - c * lo"
proof -
  have "Max (set (map ((*) c) vs)) = c * hi"
  proof (rule Max_eqI)
    fix y assume "y \<in> set (map ((*) c) vs)"
    then obtain e where "e \<in> set vs" "y = c * e" by auto
    with rng c show "y \<le> c * hi" by (simp add: mult_left_mono)
  qed (use hi in auto)
  moreover have "Min (set (map ((*) c) vs)) = c * lo"
  proof (rule Min_eqI)
    fix y assume "y \<in> set (map ((*) c) vs)"
    then obtain e where "e \<in> set vs" "y = c * e" by auto
    with rng c show "c * lo \<le> y" by (simp add: mult_left_mono)
  qed (use lo in auto)
  ultimately show ?thesis by (simp add: axis_span_def)
qed

lemma loop_2412_range:
  defines "x \<equiv> cosine_spacing 11"
  defines "x2d \<equiv> rev (map (xu_at (2 / 100) (4 / 10) (12 / 100)) x)
                    @ tl (map (xl_at (2 / 100) (4 / 10) (12 / 100)) x)"
  shows "\<forall>e \<in> set x2d. 0 \<le> e \<and> e \<le> 1 + 126 / 100000 / sqrt 226"
    and "0 \<in> set x2d" and "1 + 126 / 100000 / sqrt 226 \<in> set x2d"
proof -
  show "\<forall>e \<in> set x2d. 0 \<le> e \<and> e \<le> 1 + 126 / 100000 / sqrt 226"
  proof
    fix e assume "e \<in> set x2d"
    then have "e \<in> set (map (xu_at (2 / 100) (4 / 10) (12 / 100)) x) \<or>
               e \<in> set (map (xl_at (2 / 100) (4 / 10) (12 / 100)) x)"
      unfolding x2d_def using list.set_sel(2) [of "map (xl_at (2 / 100) (4 / 10) (12 / 100)) x" e]
      by (cases "map (xl_at (2 / 100) (4 / 10) (12 / 100)) x = []") auto
    then obtain v where v: "v \<in> set x"
      and e: "e = xu_at (2 / 100) (4 / 10) (12 / 100) v \<or> e = xl_at (2 / 100) (4 / 10) (12 / 100) v"
      by auto
    from surfaces_2412_range [OF v [unfolded x_def]] e
    show "0 \<le> e \<and> e \<le> 1 + 126 / 100000 / sqrt 226" by blast
  qed
  have "0 \<in> set x" "1 \<in> set x"
    unfolding x_def by (rule cosine_spacing_endpoints, simp)+
  then have "xu_at (2 / 100) (4 / 10) (12 / 100) 0 \<in> set x2d"
    "xu_at (2 / 100) (4 / 10) (12 / 100) 1 \<in> set x2d"
    unfolding x2d_def by simp_all
  then show "0 \<in> set x2d" and "1 + 126 / 100000 / sqrt 226 \<in> set x2d"
    by (simp_all only: leading_edge trailing_edge_2412)
qed

lemma run_2412:
  "\<exists>coords x2d y2d.
     run ''2412'' ''Z'' (Fin 2) 21 = Inr (coords, (x2d, y2d), (2 / 100, 4 / 10, 12 / 100), 11) \<and>
     length coords = 21 \<and> (\<forall>r \<in> set coords. snd (snd r) = Fin 0) \<and>
     x_extent coords = Some (2 * (1 + 126 / 100000 / sqrt 226))"
proof -
  let ?x = "cosine_spacing 11"
  let ?x2d = "rev (map (xu_at (2 / 100) (4 / 10) (12 / 100)) ?x)
                @ tl (map (xl_at (2 / 100) (4 / 10) (12 / 100)) ?x)"
  let ?y2d = "rev (map (yu_at (2 / 100) (4 / 10) (12 / 100)) ?x)
                @ tl (map (yl_at (2 / 100) (4 / 10) (12 / 100)) ?x)"
  let ?X = "map ((*) 2) ?x2d" and ?Y = "map ((*) 2) ?y2d" and ?O = "map (\<lambda>_. 0::real) ?x2d"
  let ?coords = "zip (map Fin ?X) (zip (map Fin ?Y) (map Fin ?O))"
  have mx: "max 3 (21::int) = 21" by simp
  have cn: "compute_n_per_surface_from_total 21 = Inr 11"
    by (simp add: compute_n_small)
  have gen: "generate_naca4 ''2412'' 11 = Inr (?x2d, ?y2d, (2 / 100, 4 / 10, 12 / 100))"
    using generate_naca4_map [OF parse_naca_2412, of 11] by simp
  have len: "length ?x2d = 21" "length ?y2d = 21" by simp_all
  have m3: "map_to_3d ?x2d ?y2d ''Z'' (Fin 2) = Inr ?coords"
    using len by (simp add: map_to_3d_def upper_Z scale_by_Fin Let_def comp_def)
  note rng = loop_2412_range
  have sp: "axis_span ?X = 2 * (1 + 126 / 100000 / sqrt 226)"
    using axis_span_scaled_range [OF rng, of 2] by simp
  have fr: "finite_rows ?coords = Some (zip ?X (zip ?Y ?O))"
    by (simp only: zip3_Fin finite_rows_map_Fin)
  have cols: "map fst (zip ?X (zip ?Y ?O)) = ?X" "zip ?X (zip ?Y ?O) \<noteq> []"
    using len by (simp_all add: list_eq_iff_nth_eq)
  have ext: "x_extent ?coords = Some (2 * (1 + 126 / 100000 / sqrt 226))"
    unfolding x_extent_def fr using cols sp by simp
  have "0 < axis_span ?X" unfolding sp by (simp add: add_pos_pos)
  moreover have "?X \<noteq> []"
  proof
    assume "?X = []"
    then have "length ?X = 0" by (simp only: list.size)
    with len(1) show False by simp
  qed
  ultimately have val: "validate_geometry ?coords = Inr True"
    using len by (intro validate_geometry_finite) simp_all
  have run: "run ''2412'' ''Z'' (Fin 2) 21 = Inr (?coords, (?x2d, ?y2d), (2 / 100, 4 / 10, 12 / 100), 11)"
    unfolding run_def Let_def by (simp only: mx cn gen m3 val sum.case prod.case)
  have lc: "length ?coords = 21" using len by simp
  have z: "\<forall>r \<in> set ?coords. snd (snd r) = Fin 0"
    by (auto simp: set_zip)
  from run lc z ext show ?thesis by blast
qed

lemma te_excess_bounds:
  "16 / 100000 < 252 / 100000 / sqrt 226" "252 / 100000 / sqrt 226 < 17 / 100000"
proof -
  have "sqrt 226 < sqrt ((63 / 4)\<^sup>2)"
    by (simp only: real_sqrt_less_iff) (simp add: power2_eq_square)
  then have u: "sqrt 226 < 63 / 4" by simp
  have p: "0 < sqrt 226" by simp
  from u p show "16 / 100000 < 252 / 100000 / sqrt 226"
    by (simp add: less_divide_eq)
  from sqrt_226_bounds(1) p show "252 / 100000 / sqrt 226 < 17 / 100000"
    by (simp add: divide_less_eq)
qed

text \<open>
  Claim C5 says that \<open>max(X) - min(X)\<close> is within \<open>1e-6\<close> of 2.0. The upper
  trailing-edge point lies at \<open>x = 1 + 0.00126 / sqrt 226\<close> before scaling, so the extent
  is \<open>2 + 0.00252 / sqrt 226\<close>, about \<open>2.000168\<close>.
\<close>

theorem naca_2412_extent_exceeds_tolerance:
  "\<not> isl (run ''2412'' ''Z'' (Fin 2) 21) \<and>
   x_extent (fst (projr (run ''2412'' ''Z'' (Fin 2) 21))) = Some (2 + 252 / 100000 / sqrt 226) \<and>
   \<not> \<bar>(2 + 252 / 100000 / sqrt 226) - 2\<bar> \<le> 1 / 10 ^ 6"
proof -
  have e: "2 * (1 + 126 / 100000 / sqrt 226) = 2 + 252 / 100000 / sqrt 226"
    by simp
  from run_2412 obtain coords x2d y2d where
    r: "run ''2412'' ''Z'' (Fin 2) 21 = Inr (coords, (x2d, y2d), (2 / 100, 4 / 10, 12 / 100), 11)"
    and x: "x_extent coords = Some (2 + 252 / 100000 / sqrt 226)"
    unfolding e by blast
  have "\<not> \<bar>(2 + 252 / 100000 / sqrt 226) - 2\<bar> \<le> 1 / 10 ^ 6"
    using te_excess_bounds(1) by simp
  with r x show ?thesis by simp
qed

text \<open>
  Claim C5, amended: for code \<open>2412\<close> with 21 total points the points per surface are 11
  and the output has exactly 21 points; with chord 2 and normal axis Z every output point
  has \<open>Z = 0\<close> exactly, and \<open>max(X) - min(X) = 2 + 0.00252 / sqrt 226\<close>, which exceeds 2.0
  by more than \<open>1.6e-4\<close> and less than \<open>1.7e-4\<close>.
\<close>

theorem naca_2412_end_to_end:
  "compute_n_per_surface_from_total 21 = Inr 11 \<and>
   (\<exists>coords x2d y2d.
      run ''2412'' ''Z'' (Fin 2) 21 = Inr (coords, (x2d, y2d), (2 / 100, 4 / 10, 12 / 100), 11) \<and>
      length coords = 21 \<and> (\<forall>r \<in> set coords. snd (snd r) = Fin 0) \<and>
      x_extent coords = Some (2 + 252 / 100000 / sqrt 226)) \<and>
   2 + 16 / 100000 < 2 + 252 / 100000 / sqrt 226 \<and>
   2 + 252 / 100000 / sqrt 226 < 2 + 17 / 100000"
proof -
  have cn: "compute_n_per_surface_from_total 21 = Inr 11"
    by (simp add: compute_n_small)
  have e: "2 * (1 + 126 / 100000 / sqrt 226) = 2 + 252 / 100000 / sqrt 226"
    by simp
  from run_2412 cn te_excess_bounds show ?thesis
    unfolding e by simp
qed

theorem naca_2412_end_to_end_witness:
  "\<exists>coords x2d y2d.
      run ''2412'' ''Z'' (Fin 2) 21 = Inr (coords, (x2d, y2d), (2 / 100, 4 / 10, 12 / 100), 11) \<and>
      length coords = 21 \<and> x_extent coords = Some (2 + 252 / 100000 / sqrt 226)"
  using naca_2412_end_to_end by blast

end
